theory Spec2Isabelle
  imports Complex_Main
begin

section \<open>Go values used by the weather service\<close>

text \<open>
  The service (package \<open>main\<close>, \<open>pkg/api\<close>, \<open>pkg/database\<close>) keeps all timestamps as
  \<open>int64\<close> epoch milliseconds. They come from \<open>time.Now()\<close> and from stored readings, so they
  are about \<open>2^41\<close>; the model uses \<open>int\<close> and is the code for every run in which no
  intermediate value leaves the \<open>int64\<close> range.

  Go's integer division truncates toward zero, HOL's \<open>div\<close> rounds down; \<open>quot\<close> is Go's
  (the code divides by the constants 1000 and 1000000 only).
\<close>

definition quot :: "int \<Rightarrow> int \<Rightarrow> int" where
  "quot a b = sgn a * sgn b * (\<bar>a\<bar> div \<bar>b\<bar>)"

text \<open>The errors the three packages build with \<open>fmt.Errorf\<close>, one constructor per message.\<close>

datatype error =
    ErrRequest      \<comment> \<open>the HTTP request itself failed\<close>
  | ErrDecode       \<comment> \<open>the response body is not the expected JSON\<close>
  | ErrAuth         \<comment> \<open>login answered with status "error"\<close>
  | ErrNoSession    \<comment> \<open>login answered without a session token\<close>
  | ErrInsert       \<comment> \<open>the upsert statement failed\<close>
  | ErrLatest       \<comment> \<open>the query for the latest timestamp failed\<close>

text \<open>
  A value of type \<open>interface{}\<close>, by dynamic type. \<open>encoding/json\<close> decodes into
  \<open>AnyNil\<close>, \<open>AnyString\<close>, \<open>AnyFloat64\<close>, \<open>AnyBool\<close> or a container (\<open>AnyOther\<close>); the
  other numeric cases are the ones the type switch of \<open>StoreTelemetry\<close> names. A
  \<open>float64\<close> is only compared with zero, copied and stored, so it is modelled by the real
  number it denotes.
\<close>

datatype go_any =
    AnyNil
  | AnyString string
  | AnyBool bool
  | AnyFloat64 real
  | AnyFloat32 real
  | AnyInt int
  | AnyInt64 int
  | AnyOther

section \<open>Time periods (package main)\<close>

text \<open>
  \<open>type timePeriod struct { from int64; to int64 }\<close>, in milliseconds. The fields are
  \<open>period_from\<close> and \<open>period_to\<close> here, \<open>from\<close> being a keyword of Isabelle.
\<close>

record timePeriod =
  period_from :: int
  period_to :: int

subsection \<open>splitTimePeriodByDays\<close>

text \<open>
  The loop \<open>for current < tsTo\<close> of \<open>splitTimePeriodByDays\<close>. It does not end when the
  interval is not positive, so it is a partial function: \<open>None\<close> is "does not return".
\<close>

partial_function (option) splitByDays_loop ::
  "int \<Rightarrow> int \<Rightarrow> int \<Rightarrow> timePeriod list \<Rightarrow> timePeriod list option" where
  "splitByDays_loop intervalMs tsTo current periods =
     (if current < tsTo then
        splitByDays_loop intervalMs tsTo
          (if current + intervalMs > tsTo then tsTo else current + intervalMs)
          (periods @ [\<lparr>period_from = current,
                       period_to = (if current + intervalMs > tsTo then tsTo
                                    else current + intervalMs)\<rparr>])
      else Some periods)"

declare splitByDays_loop.simps [code]

definition splitTimePeriodByDays :: "int \<Rightarrow> int \<Rightarrow> int \<Rightarrow> timePeriod list option" where
  "splitTimePeriodByDays tsFrom tsTo days =
     splitByDays_loop (days * 24 * 60 * 60 * 1000) tsTo tsFrom []"

subsection \<open>The part of package time that splitTimePeriodByMonth calls\<close>

text \<open>
  A \<open>time.Time\<close> built by \<open>time.Unix(sec, 0)\<close> or by \<open>time.Date\<close> with zero nanoseconds
  is its Unix second. The location is \<open>time.Local\<close>; the model covers a zone with a
  fixed offset \<open>loc\<close>, in seconds east of UTC (0 for UTC, 10800 for the
  \<open>TZ=Europe/Moscow\<close> that the Dockerfile sets). The calendar is the proleptic Gregorian one, as in Go:
  \<open>days_from_civil y m d\<close> is the number of days from 1970-01-01 to the date, and
  \<open>civil_from_days\<close> is its inverse.
\<close>

definition days_from_civil :: "int \<Rightarrow> int \<Rightarrow> int \<Rightarrow> int" where
  "days_from_civil y m d =
     (let y' = (if m \<le> 2 then y - 1 else y);
          era = y' div 400;
          yoe = y' - era * 400;
          doy = (153 * (if m > 2 then m - 3 else m + 9) + 2) div 5 + d - 1;
          doe = yoe * 365 + yoe div 4 - yoe div 100 + doy
      in era * 146097 + doe - 719468)"

definition civil_from_days :: "int \<Rightarrow> int \<times> int \<times> int" where
  "civil_from_days z =
     (let z' = z + 719468;
          era = z' div 146097;
          doe = z' - era * 146097;
          yoe = (doe - doe div 1460 + doe div 36524 - doe div 146096) div 365;
          doy = doe - (365 * yoe + yoe div 4 - yoe div 100);
          mp = (5 * doy + 2) div 153;
          d = doy - (153 * mp + 2) div 5 + 1;
          m = (if mp < 10 then mp + 3 else mp - 9)
      in (yoe + era * 400 + (if m \<le> 2 then 1 else 0), m, d))"

text \<open>\<open>t.Date()\<close> and \<open>t.Clock()\<close> of the time \<open>t\<close> in the zone \<open>loc\<close>.\<close>

definition time_Date :: "int \<Rightarrow> int \<Rightarrow> int \<times> int \<times> int" where
  "time_Date loc t = civil_from_days ((t + loc) div 86400)"

definition time_Year :: "int \<Rightarrow> int \<Rightarrow> int" where
  "time_Year loc t = fst (time_Date loc t)"

definition time_Month :: "int \<Rightarrow> int \<Rightarrow> int" where
  "time_Month loc t = fst (snd (time_Date loc t))"

definition time_Day :: "int \<Rightarrow> int \<Rightarrow> int" where
  "time_Day loc t = snd (snd (time_Date loc t))"

definition time_Clock :: "int \<Rightarrow> int \<Rightarrow> int \<times> int \<times> int" where
  "time_Clock loc t =
     (let s = (t + loc) mod 86400 in (s div 3600, (s mod 3600) div 60, s mod 60))"

text \<open>
  \<open>time.Date(year, month, day, hour, min, sec, 0, loc)\<close>: the month is normalised into
  1..12 with a carry into the year; days, hours, minutes and seconds are added as they
  are, so they normalise themselves.
\<close>

definition time_Date_of :: "int \<Rightarrow> int \<Rightarrow> int \<Rightarrow> int \<Rightarrow> int \<Rightarrow> int \<Rightarrow> int \<Rightarrow> int" where
  "time_Date_of loc year month day hour minute sec =
     (let m0 = month - 1;
          year' = year + m0 div 12;
          month' = m0 mod 12 + 1
      in (days_from_civil year' month' 1 + (day - 1)) * 86400
           + hour * 3600 + minute * 60 + sec - loc)"

text \<open>\<open>t.AddDate(years, months, days)\<close>.\<close>

definition time_AddDate :: "int \<Rightarrow> int \<Rightarrow> int \<Rightarrow> int \<Rightarrow> int \<Rightarrow> int" where
  "time_AddDate loc t years months days =
     (case (time_Date loc t, time_Clock loc t) of
        ((year, month, day), (hour, minute, sec)) \<Rightarrow>
          time_Date_of loc (year + years) (month + months) (day + days) hour minute sec)"

text \<open>\<open>t.UnixNano() / int64(time.Millisecond)\<close>, for a time with zero nanoseconds.\<close>

definition unixMilli :: "int \<Rightarrow> int" where
  "unixMilli t = quot (t * 1000000000) 1000000"

subsection \<open>splitTimePeriodByMonth\<close>

text \<open>
  The loop \<open>for currentMonth.Before(toTime)\<close> with its \<open>break\<close>. Each round moves
  \<open>currentMonth\<close> one month on.
\<close>

partial_function (option) splitByMonth_loop ::
  "int \<Rightarrow> int \<Rightarrow> int \<Rightarrow> int \<Rightarrow> timePeriod list \<Rightarrow> timePeriod list option" where
  "splitByMonth_loop loc toTime tsTo currentMonth periods =
     (if currentMonth < toTime then
        (if unixMilli (time_AddDate loc currentMonth 0 1 0) \<ge> tsTo then
           Some (periods @ [\<lparr>period_from = unixMilli currentMonth,
                   period_to =
                     (if unixMilli (time_AddDate loc currentMonth 0 1 0) > tsTo then tsTo
                      else unixMilli (time_AddDate loc currentMonth 0 1 0))\<rparr>])
         else
           splitByMonth_loop loc toTime tsTo (time_AddDate loc currentMonth 0 1 0)
             (periods @ [\<lparr>period_from = unixMilli currentMonth,
                   period_to =
                     (if unixMilli (time_AddDate loc currentMonth 0 1 0) > tsTo then tsTo
                      else unixMilli (time_AddDate loc currentMonth 0 1 0))\<rparr>]))
      else Some periods)"

declare splitByMonth_loop.simps [code]

definition splitTimePeriodByMonth :: "int \<Rightarrow> int \<Rightarrow> int \<Rightarrow> timePeriod list option" where
  "splitTimePeriodByMonth loc tsFrom tsTo =
     (let fromTime = quot tsFrom 1000;
          toTime = quot tsTo 1000;
          currentMonth =
            time_Date_of loc (time_Year loc fromTime) (time_Month loc fromTime) 1 0 0 0
      in if time_Day loc fromTime > 1 then
           (let nextMonth = time_AddDate loc currentMonth 0 1 0;
                periodEnd = min (unixMilli nextMonth) tsTo
            in splitByMonth_loop loc toTime tsTo nextMonth
                 [\<lparr>period_from = tsFrom, period_to = periodEnd\<rparr>])
         else splitByMonth_loop loc toTime tsTo currentMonth [])"

section \<open>The API client (pkg/api)\<close>

text \<open>
  \<open>TelemetryData\<close> is one record of a telemetry response, \<open>TelemetryPoint\<close> one point of
  the result. The timestamp field of \<open>TelemetryData\<close> is \<open>DataTs\<close> here (both structs call
  it \<open>Ts\<close>).
\<close>

record TelemetryData =
  EntityID :: string
  Key :: string
  DataTs :: int
  DblV :: real
  StrV :: go_any

record TelemetryPoint =
  Ts :: int
  Value :: go_any

text \<open>The fields of \<open>Device\<close> that the service reads.\<close>

record Device =
  ID :: string
  Name :: string
  Label :: string
  Latitude :: real
  Longitude :: real

text \<open>
  A decoded response body. \<open>LoginResponse\<close>, \<open>DevicesResponse\<close> and \<open>TelemetryResponse\<close>
  each read their own fields of it; a field the body lacks has Go's zero value.
\<close>

record response =
  Status :: string
  Sid :: string
  Devices :: "Device list"
  Data :: "TelemetryData list"

text \<open>What \<open>Client.Post\<close> followed by \<open>json.NewDecoder(resp.Body).Decode\<close> can give.\<close>

datatype http_result =
    TransportError
  | Undecodable
  | Body response

datatype request =
    PostLogin
  | PostDevices string
  | PostTelemetry string "string list" "string list" int int

text \<open>
  The client: the field \<open>SessionID\<close> of \<open>WeatherAPI\<close>, and the remote side as the client
  meets it: \<open>Replies\<close> are the results of the POSTs still to come, in order (when none is
  left, the request fails), \<open>Sent\<close> are the requests made so far.
\<close>

record WeatherAPI =
  SessionID :: string
  Replies :: "http_result list"
  Sent :: "request list"

definition Post :: "request \<Rightarrow> WeatherAPI \<Rightarrow> http_result \<times> WeatherAPI" where
  "Post req w =
     (case Replies w of
        [] \<Rightarrow> (TransportError, w\<lparr>Sent := Sent w @ [req]\<rparr>)
      | r # rs \<Rightarrow> (r, w\<lparr>Replies := rs, Sent := Sent w @ [req]\<rparr>))"

definition Login :: "WeatherAPI \<Rightarrow> error option \<times> WeatherAPI" where
  "Login w =
     (case Post PostLogin w of
        (TransportError, w') \<Rightarrow> (Some ErrRequest, w')
      | (Undecodable, w') \<Rightarrow> (Some ErrDecode, w')
      | (Body loginResp, w') \<Rightarrow>
          if Status loginResp = ''error'' then (Some ErrAuth, w')
          else if Sid loginResp = [] then (Some ErrNoSession, w')
          else (None, w'\<lparr>SessionID := Sid loginResp\<rparr>))"

text \<open>The guard at the head of every fetch: log in when there is no session yet.\<close>

definition ensureSession :: "WeatherAPI \<Rightarrow> error option \<times> WeatherAPI" where
  "ensureSession w = (if SessionID w = [] then Login w else (None, w))"

text \<open>
  The result map \<open>map[string][]TelemetryPoint\<close> as an association list with one entry per
  key, in the order the keys were first written; \<open>appendPoint\<close> is
  \<open>result[key] = append(result[key], point)\<close>.
\<close>

type_synonym telemetry = "(string \<times> TelemetryPoint list) list"

fun appendPoint :: "telemetry \<Rightarrow> string \<Rightarrow> TelemetryPoint \<Rightarrow> telemetry" where
  "appendPoint [] key point = [(key, [point])]"
| "appendPoint ((k, points) # rest) key point =
     (if k = key then (k, points @ [point]) # rest
      else (k, points) # appendPoint rest key point)"

definition toPoint :: "TelemetryData \<Rightarrow> TelemetryPoint" where
  "toPoint d =
     \<lparr>Ts = DataTs d,
      Value = (if DblV d \<noteq> 0 then AnyFloat64 (DblV d) else StrV d)\<rparr>"

fun toResult :: "TelemetryData list \<Rightarrow> telemetry \<Rightarrow> telemetry" where
  "toResult [] result = result"
| "toResult (d # ds) result = toResult ds (appendPoint result (Key d) (toPoint d))"

lemma Post_Replies_le: "length (Replies (snd (Post req w))) \<le> length (Replies w)"
  by (simp add: Post_def split: list.split)

lemma Post_Body_Replies: "Post req w = (Body b, w') \<Longrightarrow> length (Replies w') < length (Replies w)"
  by (auto simp: Post_def split: list.splits)

lemma Login_Replies_le: "length (Replies (snd (Login w))) \<le> length (Replies w)"
  using Post_Replies_le [of PostLogin w]
  by (auto simp: Login_def split: prod.splits http_result.splits)

lemma ensureSession_Replies_le: "length (Replies (snd (ensureSession w))) \<le> length (Replies w)"
  using Login_Replies_le [of w] by (simp add: ensureSession_def)

function GetDevices :: "WeatherAPI \<Rightarrow> (error + Device list) \<times> WeatherAPI" where
  "GetDevices w =
     (case ensureSession w of
        (Some err, w1) \<Rightarrow> (Inl err, w1)
      | (None, w1) \<Rightarrow>
          (case Post (PostDevices (SessionID w1)) w1 of
             (TransportError, w2) \<Rightarrow> (Inl ErrRequest, w2)
           | (Undecodable, w2) \<Rightarrow> (Inl ErrDecode, w2)
           | (Body devicesResp, w2) \<Rightarrow>
               if Status devicesResp \<noteq> ''OK'' then
                 (case Login w2 of
                    (Some err, w3) \<Rightarrow> (Inl err, w3)
                  | (None, w3) \<Rightarrow> GetDevices w3)
               else (Inr (Devices devicesResp), w2)))"
  by pat_completeness auto
termination GetDevices
proof (relation "measure (\<lambda>w. length (Replies w))", goal_cases)
  case 1
  show ?case by simp
next
  case prems: (2 w x y xa ya x3 xb yb)
  from prems have e: "ensureSession w = (None, y)"
    and p: "Post (PostDevices (SessionID y)) y = (Body x3, ya)"
    and l: "Login ya = (None, yb)"
    by simp_all
  have "length (Replies y) \<le> length (Replies w)"
    using ensureSession_Replies_le [of w] e by simp
  moreover have "length (Replies ya) < length (Replies y)"
    using Post_Body_Replies [OF p] .
  moreover have "length (Replies yb) \<le> length (Replies ya)"
    using Login_Replies_le [of ya] l by simp
  ultimately show ?case by simp
qed

function GetTelemetry ::
  "string \<Rightarrow> string list \<Rightarrow> int \<Rightarrow> int \<Rightarrow> WeatherAPI \<Rightarrow> (error + telemetry) \<times> WeatherAPI" where
  "GetTelemetry deviceID keys tsFrom tsTo w =
     (case ensureSession w of
        (Some err, w1) \<Rightarrow> (Inl err, w1)
      | (None, w1) \<Rightarrow>
          (case Post (PostTelemetry (SessionID w1) [deviceID] keys tsFrom tsTo) w1 of
             (TransportError, w2) \<Rightarrow> (Inl ErrRequest, w2)
           | (Undecodable, w2) \<Rightarrow> (Inl ErrDecode, w2)
           | (Body telemetryResp, w2) \<Rightarrow>
               if Status telemetryResp \<noteq> ''OK'' then
                 (case Login w2 of
                    (Some err, w3) \<Rightarrow> (Inl err, w3)
                  | (None, w3) \<Rightarrow> GetTelemetry deviceID keys tsFrom tsTo w3)
               else (Inr (toResult (Data telemetryResp) []), w2)))"
  by pat_completeness auto
termination GetTelemetry
proof (relation "measure (\<lambda>(deviceID, keys, tsFrom, tsTo, w). length (Replies w))", goal_cases)
  case 1
  show ?case by simp
next
  case prems: (2 deviceID keys tsFrom tsTo w x y xa ya x3 xb yb)
  from prems have e: "ensureSession w = (None, y)"
    and p: "Post (PostTelemetry (SessionID y) [deviceID] keys tsFrom tsTo) y = (Body x3, ya)"
    and l: "Login ya = (None, yb)"
    by simp_all
  have "length (Replies y) \<le> length (Replies w)"
    using ensureSession_Replies_le [of w] e by simp
  moreover have "length (Replies ya) < length (Replies y)"
    using Post_Body_Replies [OF p] .
  moreover have "length (Replies yb) \<le> length (Replies ya)"
    using Login_Replies_le [of ya] l by simp
  ultimately show ?case by simp
qed

text \<open>
  The two equations call themselves; they are unfolded by hand (\<open>subst\<close>), not by the
  simplifier.
\<close>

declare GetTelemetry.simps [simp del] GetDevices.simps [simp del]

section \<open>The database (pkg/database)\<close>

text \<open>
  A row of table \<open>Telemetry\<close>. \<open>DateValue\<close> is the Unix second of the \<open>time.Time\<close> the
  code passes; the column \<open>Value\<close> is \<open>RowValue\<close> here. The surrogate key \<open>ID\<close>
  (\<open>IDENTITY\<close>) is left out: no statement of the service reads it.
\<close>

record telemetry_row =
  StationID :: string
  SensorKey :: string
  Timestamp :: int
  DateValue :: int
  RowValue :: real

text \<open>
  The two tables, each a list of rows in insertion order. Of the schema's constraints the
  model keeps the foreign key of \<open>Telemetry.StationID\<close> into \<open>Stations.ID\<close>; the unique
  constraint on (StationID, SensorKey, Timestamp) is never tested, because the statement
  inserts only when no such row exists.
\<close>

record database =
  Stations :: "Device list"
  Telemetry :: "telemetry_row list"

definition rowMatches :: "string \<Rightarrow> string \<Rightarrow> int \<Rightarrow> telemetry_row \<Rightarrow> bool" where
  "rowMatches stationID sensorKey ts row =
     (StationID row = stationID \<and> SensorKey row = sensorKey \<and> Timestamp row = ts)"

text \<open>
  One execution of the prepared statement of \<open>StoreTelemetry\<close>:
  \<open>IF NOT EXISTS (SELECT 1 FROM Telemetry WHERE ...) INSERT ... ELSE UPDATE Telemetry SET
  Value = @Value WHERE ...\<close>.
\<close>

definition execUpsert ::
  "string \<Rightarrow> string \<Rightarrow> int \<Rightarrow> int \<Rightarrow> real \<Rightarrow> database \<Rightarrow> error + database" where
  "execUpsert stationID sensorKey ts dateValue v db =
     (if \<not> list_ex (rowMatches stationID sensorKey ts) (Telemetry db) then
        (if stationID \<in> set (map ID (Stations db)) then
           Inr (db\<lparr>Telemetry := Telemetry db @
                  [\<lparr>StationID = stationID, SensorKey = sensorKey, Timestamp = ts,
                    DateValue = dateValue, RowValue = v\<rparr>]\<rparr>)
         else Inl ErrInsert)
      else
        Inr (db\<lparr>Telemetry :=
               map (\<lambda>row. if rowMatches stationID sensorKey ts row
                           then row\<lparr>RowValue := v\<rparr> else row)
                 (Telemetry db)\<rparr>))"

text \<open>
  The type switch \<open>switch v := point.Value.(type)\<close>; \<open>None\<close> is its \<open>default\<close> case.
  The conversions to \<open>float64\<close> keep the number (the rounding of integers beyond
  \<open>2^53\<close> is not modelled).
\<close>

fun toFloat64 :: "go_any \<Rightarrow> real option" where
  "toFloat64 (AnyFloat64 v) = Some v"
| "toFloat64 (AnyFloat32 v) = Some v"
| "toFloat64 (AnyInt v) = Some (real_of_int v)"
| "toFloat64 (AnyInt64 v) = Some (real_of_int v)"
| "toFloat64 _ = None"

text \<open>The inner loop \<open>for _, point := range points\<close>; an error leaves the loops.\<close>

fun storePoints :: "string \<Rightarrow> string \<Rightarrow> TelemetryPoint list \<Rightarrow> database \<Rightarrow> error + database" where
  "storePoints deviceID sensorKey [] db = Inr db"
| "storePoints deviceID sensorKey (point # points) db =
     (case toFloat64 (Value point) of
        None \<Rightarrow> storePoints deviceID sensorKey points db
      | Some floatValue \<Rightarrow>
          (case execUpsert deviceID sensorKey (Ts point) (quot (Ts point) 1000) floatValue db of
             Inl err \<Rightarrow> Inl err
           | Inr db' \<Rightarrow> storePoints deviceID sensorKey points db'))"

text \<open>
  The outer loop \<open>for sensorKey, points := range data\<close>. Go visits the keys of a map in no
  fixed order; the association list is the order of one run.
\<close>

fun storeSensors :: "string \<Rightarrow> telemetry \<Rightarrow> database \<Rightarrow> error + database" where
  "storeSensors deviceID [] db = Inr db"
| "storeSensors deviceID ((sensorKey, points) # rest) db =
     (case storePoints deviceID sensorKey points db of
        Inl err \<Rightarrow> Inl err
      | Inr db' \<Rightarrow> storeSensors deviceID rest db')"

text \<open>
  \<open>StoreTelemetry\<close> runs the loops in one transaction: an error rolls it back (the
  database is as before), the end commits. The result is the returned error and the
  database after the call.
\<close>

definition StoreTelemetry :: "string \<Rightarrow> telemetry \<Rightarrow> database \<Rightarrow> error option \<times> database" where
  "StoreTelemetry deviceID data db =
     (case storeSensors deviceID data db of
        Inl err \<Rightarrow> (Some err, db)
      | Inr db' \<Rightarrow> (None, db'))"

text \<open>
  \<open>GetLatestTelemetryTimestamp\<close>: \<open>SELECT TOP 1 Timestamp ... ORDER BY Timestamp DESC\<close>,
  0 when there is no row. \<open>queryFails\<close> says for which station and sensor the query
  itself fails.
\<close>

definition GetLatestTelemetryTimestamp ::
  "(string \<Rightarrow> string \<Rightarrow> bool) \<Rightarrow> database \<Rightarrow> string \<Rightarrow> string \<Rightarrow> error + int" where
  "GetLatestTelemetryTimestamp queryFails db stationID sensorKey =
     (if queryFails stationID sensorKey then Inl ErrLatest
      else
        (case map Timestamp
                (filter (\<lambda>row. StationID row = stationID \<and> SensorKey row = sensorKey)
                   (Telemetry db)) of
           [] \<Rightarrow> Inr 0
         | t # ts \<Rightarrow> Inr (fold max ts t)))"

section \<open>The orchestrator (package main)\<close>

definition sensorKeys :: "string list" where
  "sensorKeys =
     [''airtemp'', ''soiltemp'', ''airmoist'', ''rainfall'', ''rainfall_daily'',
      ''windspeed'', ''windspeedmax'', ''winddir'', ''winddirang'']"

text \<open>
  \<open>processAndSaveTelemetry\<close>: the count is the number of points received; it is returned
  when the store succeeds, 0 otherwise.
\<close>

definition processAndSaveTelemetry :: "string \<Rightarrow> telemetry \<Rightarrow> database \<Rightarrow> int \<times> database" where
  "processAndSaveTelemetry deviceID telemetry db =
     (let recordsCount = sum_list (map (\<lambda>(sensorKey, points). int (length points)) telemetry)
      in if recordsCount = 0 then (0, db)
         else
           (case StoreTelemetry deviceID telemetry db of
              (Some err, db') \<Rightarrow> (0, db')
            | (None, db') \<Rightarrow> (recordsCount, db')))"

text \<open>
  The variables the first loop of \<open>processDevice\<close> fills: the two sensor lists, the
  running minimum and the map of last timestamps.
\<close>

record sensorScan =
  newSensors :: "string list"
  existingSensors :: "string list"
  minTsFrom :: int
  sensorLastTs :: "string \<rightharpoonup> int"

definition initialScan :: "int \<Rightarrow> sensorScan" where
  "initialScan now =
     \<lparr>newSensors = [], existingSensors = [], minTsFrom = now, sensorLastTs = Map.empty\<rparr>"

text \<open>
  The loop \<open>for _, sensorKey := range sensorKeys\<close>; \<open>latest\<close> is
  \<open>dbManager.GetLatestTelemetryTimestamp(device.ID, _)\<close>.
\<close>

fun scanSensors :: "(string \<Rightarrow> error + int) \<Rightarrow> string list \<Rightarrow> sensorScan \<Rightarrow> sensorScan" where
  "scanSensors latest [] scan = scan"
| "scanSensors latest (sensorKey # rest) scan =
     (case latest sensorKey of
        Inl err \<Rightarrow>
          scanSensors latest rest (scan\<lparr>newSensors := newSensors scan @ [sensorKey]\<rparr>)
      | Inr lastTs \<Rightarrow>
          if lastTs > 0 then
            scanSensors latest rest
              (scan\<lparr>sensorLastTs := (sensorLastTs scan)(sensorKey \<mapsto> lastTs),
                    existingSensors := existingSensors scan @ [sensorKey],
                    minTsFrom := (if lastTs < minTsFrom scan then lastTs else minTsFrom scan)\<rparr>)
          else
            scanSensors latest rest
              (scan\<lparr>sensorLastTs := (sensorLastTs scan)(sensorKey \<mapsto> lastTs),
                    newSensors := newSensors scan @ [sensorKey]\<rparr>))"

definition intervalMs :: int where
  "intervalMs = 15 * 60 * 1000"

text \<open>\<open>tsFrom\<close>, the lower bound for the existing sensors.\<close>

definition existingTsFrom :: "int \<Rightarrow> int \<Rightarrow> int" where
  "existingTsFrom now minTs =
     (if minTs < now \<and> minTs > 0 then minTs + 1 else now - intervalMs)"

text \<open>The periods requested for the new sensors, none when there is no new sensor.\<close>

definition newPeriods :: "int \<Rightarrow> int \<Rightarrow> sensorScan \<Rightarrow> timePeriod list option" where
  "newPeriods loc now scan =
     (if length (newSensors scan) > 0 then
        splitTimePeriodByMonth loc (now - 365 * 24 * 60 * 60 * 1000) now
      else Some [])"

text \<open>The periods requested for the existing sensors, none when there is none.\<close>

definition existingPeriods :: "int \<Rightarrow> sensorScan \<Rightarrow> timePeriod list option" where
  "existingPeriods now scan =
     (if length (existingSensors scan) > 0 then
        (let tsFrom = existingTsFrom now (minTsFrom scan);
             oneMonthAgo = now - 30 * 24 * 60 * 60 * 1000
         in if tsFrom < oneMonthAgo then splitTimePeriodByDays tsFrom now 30
            else Some [\<lparr>period_from = tsFrom, period_to = now\<rparr>])
      else Some [])"

text \<open>
  The loop \<open>for _, period := range periods\<close>: a failed fetch is skipped
  (\<open>continue\<close>), a fetched batch is stored and counted.
\<close>

fun fetchPeriods ::
  "string \<Rightarrow> string list \<Rightarrow> timePeriod list \<Rightarrow> int \<times> WeatherAPI \<times> database \<Rightarrow>
     int \<times> WeatherAPI \<times> database" where
  "fetchPeriods deviceID sensors [] st = st"
| "fetchPeriods deviceID sensors (period # rest) (totalRecordsCount, w, db) =
     (case GetTelemetry deviceID sensors (period_from period) (period_to period) w of
        (Inl err, w') \<Rightarrow> fetchPeriods deviceID sensors rest (totalRecordsCount, w', db)
      | (Inr telemetry, w') \<Rightarrow>
          (case processAndSaveTelemetry deviceID telemetry db of
             (recordsCount, db') \<Rightarrow>
               fetchPeriods deviceID sensors rest (totalRecordsCount + recordsCount, w', db')))"

text \<open>
  \<open>processDevice\<close>, with the clock reading \<open>now\<close> and the zone as parameters. The result
  is \<open>totalRecordsCount\<close> with the client and the database after the call.
\<close>

definition processDevice ::
  "int \<Rightarrow> (string \<Rightarrow> string \<Rightarrow> bool) \<Rightarrow> int \<Rightarrow> Device \<Rightarrow> WeatherAPI \<times> database \<Rightarrow>
     (int \<times> WeatherAPI \<times> database) option" where
  "processDevice loc queryFails now device st =
     (case st of (w, db) \<Rightarrow>
        (let scan = scanSensors (GetLatestTelemetryTimestamp queryFails db (ID device))
                      sensorKeys (initialScan now)
         in case newPeriods loc now scan of
              None \<Rightarrow> None
            | Some periodsNew \<Rightarrow>
                (case existingPeriods now scan of
                   None \<Rightarrow> None
                 | Some periodsExisting \<Rightarrow>
                     Some (fetchPeriods (ID device) (existingSensors scan) periodsExisting
                             (fetchPeriods (ID device) (newSensors scan) periodsNew
                                (0, w, db))))))"

section \<open>Notions used in the statements\<close>

text \<open>
  \<open>chain lo ps hi\<close>: the periods \<open>ps\<close> follow one another without a gap, the first starts
  at \<open>lo\<close> and the last ends at \<open>hi\<close>.
\<close>

fun chain :: "int \<Rightarrow> timePeriod list \<Rightarrow> int \<Rightarrow> bool" where
  "chain lo [] hi = (lo = hi)"
| "chain lo (p # ps) hi = (period_from p = lo \<and> chain (period_to p) ps hi)"


text \<open>
  A sensor has a watermark when the query for its latest timestamp succeeds with a
  positive value; \<open>groupWatermark\<close> is the oldest watermark of a group of sensors.
\<close>

definition hasWatermark :: "(string \<Rightarrow> error + int) \<Rightarrow> string \<Rightarrow> bool" where
  "hasWatermark latest k = (case latest k of Inl err \<Rightarrow> False | Inr lastTs \<Rightarrow> lastTs > 0)"

definition watermark :: "(string \<Rightarrow> error + int) \<Rightarrow> string \<Rightarrow> int" where
  "watermark latest k = (case latest k of Inl err \<Rightarrow> 0 | Inr lastTs \<Rightarrow> lastTs)"

definition groupWatermark :: "(string \<Rightarrow> error + int) \<Rightarrow> string list \<Rightarrow> int" where
  "groupWatermark latest ks = Min (set (map (watermark latest) ks))"


text \<open>
  The requests of a fetch that is answered \<open>n\<close> times by a status other than OK, each
  followed by a successful login, and then once more: \<open>mk sid\<close> is the fetch request
  with session \<open>sid\<close>, the first session is \<open>sid\<close> and the logins give \<open>sid'\<close>.
  \<open>retryReplies\<close> are the \<open>2 * n\<close> replies of the remote side in these rounds, and
  \<open>countLogins\<close> counts the login requests in a list of requests.
\<close>

fun retrySent :: "(string \<Rightarrow> request) \<Rightarrow> string \<Rightarrow> string \<Rightarrow> nat \<Rightarrow> request list" where
  "retrySent mk sid sid' 0 = [mk sid]"
| "retrySent mk sid sid' (Suc n) = mk sid # PostLogin # retrySent mk sid' sid' n"

definition retryReplies :: "response \<Rightarrow> response \<Rightarrow> nat \<Rightarrow> http_result list" where
  "retryReplies bad lg n = concat (replicate n [Body bad, Body lg])"

definition countLogins :: "request list \<Rightarrow> nat" where
  "countLogins rs = length (filter (\<lambda>r. r = PostLogin) rs)"

text \<open>
  The key of a row under the unique constraint of table \<open>Telemetry\<close>; the values the
  type switch of \<open>StoreTelemetry\<close> accepts; a batch without its other points.
\<close>

definition rowKey :: "telemetry_row \<Rightarrow> string \<times> string \<times> int" where
  "rowKey row = (StationID row, SensorKey row, Timestamp row)"

fun isNumeric :: "go_any \<Rightarrow> bool" where
  "isNumeric (AnyFloat64 v) = True"
| "isNumeric (AnyFloat32 v) = True"
| "isNumeric (AnyInt v) = True"
| "isNumeric (AnyInt64 v) = True"
| "isNumeric _ = False"

definition numericOnly :: "telemetry \<Rightarrow> telemetry" where
  "numericOnly data = map (\<lambda>(k, ps). (k, filter (\<lambda>p. isNumeric (Value p)) ps)) data"

section \<open>Notions used in the proofs about the database\<close>

text \<open>
  The two loops of \<open>StoreTelemetry\<close> execute a list of upserts (sensor key, timestamp,
  value): \<open>batchUpserts\<close> lists them, \<open>runUpserts\<close> executes such a list. \<open>present\<close> says
  that a row with the key exists, \<open>setValue\<close> is the UPDATE branch on one row,
  \<open>lastValue\<close> is the value the last upsert of a key writes, and \<open>settle\<close> gives a row
  that value.
\<close>

type_synonym upsert = "string \<times> int \<times> real"

fun runUpserts :: "string \<Rightarrow> upsert list \<Rightarrow> database \<Rightarrow> error + database" where
  "runUpserts dev [] db = Inr db"
| "runUpserts dev ((k, ts, v) # rest) db =
     (case execUpsert dev k ts (quot ts 1000) v db of
        Inl err \<Rightarrow> Inl err
      | Inr db' \<Rightarrow> runUpserts dev rest db')"

fun pointUpserts :: "string \<Rightarrow> TelemetryPoint list \<Rightarrow> upsert list" where
  "pointUpserts k [] = []"
| "pointUpserts k (p # ps) =
     (case toFloat64 (Value p) of
        None \<Rightarrow> pointUpserts k ps
      | Some v \<Rightarrow> (k, Ts p, v) # pointUpserts k ps)"

fun batchUpserts :: "telemetry \<Rightarrow> upsert list" where
  "batchUpserts [] = []"
| "batchUpserts ((k, ps) # rest) = pointUpserts k ps @ batchUpserts rest"

definition present :: "string \<Rightarrow> string \<Rightarrow> int \<Rightarrow> database \<Rightarrow> bool" where
  "present dev k ts db = list_ex (rowMatches dev k ts) (Telemetry db)"

definition setValue :: "string \<Rightarrow> string \<Rightarrow> int \<Rightarrow> real \<Rightarrow> telemetry_row \<Rightarrow> telemetry_row" where
  "setValue dev k ts v row = (if rowMatches dev k ts row then row\<lparr>RowValue := v\<rparr> else row)"

fun lastValue :: "upsert list \<Rightarrow> string \<Rightarrow> int \<Rightarrow> real option" where
  "lastValue [] k ts = None"
| "lastValue ((k', ts', v) # rest) k ts =
     (case lastValue rest k ts of
        Some v' \<Rightarrow> Some v'
      | None \<Rightarrow> if k' = k \<and> ts' = ts then Some v else None)"

definition settle :: "string \<Rightarrow> upsert list \<Rightarrow> telemetry_row \<Rightarrow> telemetry_row" where
  "settle dev ups row =
     (if StationID row = dev then
        (case lastValue ups (SensorKey row) (Timestamp row) of
           None \<Rightarrow> row
         | Some v \<Rightarrow> row\<lparr>RowValue := v\<rparr>)
      else row)"

section \<open>Example inputs\<close>

text \<open>
  A database with one station and one stored reading, and two behaviours of the query for
  the latest timestamp: it never fails, or it fails for the sensor \<open>winddir\<close>.
\<close>

definition exampleDb :: database where
  "exampleDb =
     \<lparr>Stations = [\<lparr>ID = ''S1'', Name = ''S1'', Label = ''field'', Latitude = 0, Longitude = 0\<rparr>],
      Telemetry = [\<lparr>StationID = ''S1'', SensorKey = ''soiltemp'', Timestamp = 1700000005000,
                    DateValue = 1700000005, RowValue = 4\<rparr>]\<rparr>"

definition neverFails :: "string \<Rightarrow> string \<Rightarrow> bool" where
  "neverFails stationID sensorKey = False"

definition winddirFails :: "string \<Rightarrow> string \<Rightarrow> bool" where
  "winddirFails stationID sensorKey = (sensorKey = ''winddir'')"

text \<open>
  Three response bodies: a status other than OK, a successful login that gives the
  session \<open>sid\<close>, and a telemetry response with one reading.
\<close>

definition expiredResp :: response where
  "expiredResp = \<lparr>Status = ''error'', Sid = [], Devices = [], Data = []\<rparr>"

definition loginResp :: "string \<Rightarrow> response" where
  "loginResp sid = \<lparr>Status = ''OK'', Sid = sid, Devices = [], Data = []\<rparr>"

definition airtempResp :: response where
  "airtempResp =
     \<lparr>Status = ''OK'', Sid = [], Devices = [],
      Data = [\<lparr>EntityID = ''S1'', Key = ''airtemp'', DataTs = 1700000000000,
               DblV = 21.5, StrV = AnyNil\<rparr>]\<rparr>"

text \<open>
  A batch for two sensors with a repeated timestamp and a point that is not a number; a
  batch with only such a point; a telemetry response whose only reading is zero.
\<close>

definition exampleData :: telemetry where
  "exampleData =
     [(''airtemp'', [\<lparr>Ts = 1700000000000, Value = AnyFloat64 21.5\<rparr>,
                    \<lparr>Ts = 1700000060000, Value = AnyString ''N/A''\<rparr>,
                    \<lparr>Ts = 1700000000000, Value = AnyFloat64 22\<rparr>]),
      (''soiltemp'', [\<lparr>Ts = 1700000005000, Value = AnyInt 7\<rparr>])]"

definition naData :: telemetry where
  "naData = [(''airtemp'', [\<lparr>Ts = 1700000060000, Value = AnyString ''N/A''\<rparr>])]"

definition zeroResp :: response where
  "zeroResp =
     \<lparr>Status = ''OK'', Sid = [], Devices = [],
      Data = [\<lparr>EntityID = ''S1'', Key = ''rainfall'', DataTs = 1700000000000,
               DblV = 0, StrV = AnyNil\<rparr>]\<rparr>"

section \<open>Contiguous periods\<close>

lemma chain_append: "chain lo (ps @ qs) hi = (\<exists>mid. chain lo ps mid \<and> chain mid qs hi)"
  by (induction ps arbitrary: lo) auto

lemma chain_le:
  "chain lo ps hi \<Longrightarrow> (\<And>p. p \<in> set ps \<Longrightarrow> period_from p < period_to p) \<Longrightarrow> lo \<le> hi"
  by (induction ps arbitrary: lo) (auto, force)

lemma chain_union:
  "chain lo ps hi \<Longrightarrow> (\<And>p. p \<in> set ps \<Longrightarrow> period_from p < period_to p) \<Longrightarrow>
     (\<Union>p\<in>set ps. {period_from p ..< period_to p}) = {lo ..< hi}"
proof (induction ps arbitrary: lo)
  case Nil
  then show ?case by simp
next
  case (Cons p ps)
  have c: "chain (period_to p) ps hi" and f: "period_from p = lo" using Cons.prems(1) by auto
  have le: "period_to p \<le> hi" using chain_le [OF c] Cons.prems(2) by simp
  have "(\<Union>q\<in>set ps. {period_from q ..< period_to q}) = {period_to p ..< hi}"
    using Cons.IH [OF c] Cons.prems(2) by simp
  moreover have "lo < period_to p" using Cons.prems(2) [of p] f by simp
  ultimately show ?case using f le by auto
qed

lemma chain_nth:
  "chain lo ps hi \<Longrightarrow> Suc i < length ps \<Longrightarrow> period_to (ps ! i) = period_from (ps ! Suc i)"
proof (induction ps arbitrary: lo i)
  case Nil
  then show ?case by simp
next
  case (Cons p ps)
  show ?case
  proof (cases i)
    case 0
    then show ?thesis using Cons.prems by (cases ps) auto
  next
    case (Suc j)
    then show ?thesis using Cons.IH [of "period_to p" j] Cons.prems by auto
  qed
qed

lemma chain_hd_last:
  "chain lo ps hi \<Longrightarrow> ps \<noteq> [] \<Longrightarrow> period_from (hd ps) = lo \<and> period_to (last ps) = hi"
  by (induction ps arbitrary: lo) (auto split: if_splits)

lemma chain_sorted:
  "chain lo ps hi \<Longrightarrow> (\<And>p. p \<in> set ps \<Longrightarrow> period_from p < period_to p) \<Longrightarrow>
     i < j \<Longrightarrow> j < length ps \<Longrightarrow> period_to (ps ! i) \<le> period_from (ps ! j)"
proof (induction ps arbitrary: lo i j)
  case Nil
  then show ?case by simp
next
  case (Cons p ps)
  have c: "chain (period_to p) ps hi" using Cons.prems(1) by simp
  obtain j' where j: "j = Suc j'" using Cons.prems(3) by (cases j) auto
  show ?case
  proof (cases i)
    case 0
    have "j' < length ps" using Cons.prems(4) j by simp
    then have "chain (period_to p) (take j' ps @ drop j' ps) hi" using c by simp
    then obtain mid where m1: "chain (period_to p) (take j' ps) mid" and m2: "chain mid (drop j' ps) hi"
      using chain_append by blast
    have "period_to p \<le> mid"
      using chain_le [OF m1] Cons.prems(2) by (meson in_set_takeD list.set_intros(2))
    moreover have "period_from (ps ! j') = mid"
      using m2 \<open>j' < length ps\<close> by (cases "drop j' ps") (auto simp: Cons_nth_drop_Suc [symmetric])
    ultimately show ?thesis using 0 j by simp
  next
    case (Suc i')
    then show ?thesis using Cons.IH [OF c, of i' j'] Cons.prems j by auto
  qed
qed


section \<open>splitTimePeriodByDays returns, and what it returns\<close>

lemma splitByDays_loop_stop: "\<not> c < tsTo \<Longrightarrow> splitByDays_loop i tsTo c acc = Some acc"
  by (subst splitByDays_loop.simps) simp

lemma splitByDays_loop_step:
  "c < tsTo \<Longrightarrow> splitByDays_loop i tsTo c acc =
     splitByDays_loop i tsTo (if c + i > tsTo then tsTo else c + i)
       (acc @ [\<lparr>period_from = c, period_to = (if c + i > tsTo then tsTo else c + i)\<rparr>])"
  by (subst splitByDays_loop.simps) simp

lemma splitByDays_loop_total:
  assumes "0 < i"
  shows "c \<le> tsTo \<Longrightarrow> \<exists>ps. splitByDays_loop i tsTo c acc = Some (acc @ ps) \<and> chain c ps tsTo
     \<and> (ps = [] \<longleftrightarrow> c = tsTo)
     \<and> (\<forall>p\<in>set ps. period_from p < period_to p \<and> period_to p - period_from p \<le> i)
     \<and> (\<forall>p\<in>set (butlast ps). period_to p - period_from p = i)"
proof (induction "nat (tsTo - c)" arbitrary: c acc rule: less_induct)
  case less
  show ?case
  proof (cases "c < tsTo")
    case False
    then have "c = tsTo" using less.prems by simp
    then show ?thesis using splitByDays_loop_stop [of c tsTo i acc] by simp
  next
    case True
    define e where "e = (if c + i > tsTo then tsTo else c + i)"
    define p where "p = \<lparr>period_from = c, period_to = e\<rparr>"
    have e: "c < e" "e \<le> tsTo" "e - c \<le> i" "e \<noteq> tsTo \<Longrightarrow> e - c = i"
      using True assms by (auto simp: e_def)
    have "nat (tsTo - e) < nat (tsTo - c)" using e True by simp
    from less.hyps [OF this e(2), of "acc @ [p]"]
    obtain ps where ps: "splitByDays_loop i tsTo e (acc @ [p]) = Some ((acc @ [p]) @ ps)"
      "chain e ps tsTo" "ps = [] \<longleftrightarrow> e = tsTo"
      "\<forall>q\<in>set ps. period_from q < period_to q \<and> period_to q - period_from q \<le> i"
      "\<forall>q\<in>set (butlast ps). period_to q - period_from q = i"
      by blast
    have "splitByDays_loop i tsTo c acc = Some (acc @ (p # ps))"
      using splitByDays_loop_step [OF True, of i acc] ps(1) by (simp add: e_def p_def)
    moreover have "chain c (p # ps) tsTo" using ps(2) by (simp add: p_def)
    moreover have "\<forall>q\<in>set (p # ps). period_from q < period_to q \<and> period_to q - period_from q \<le> i"
      using ps(4) e by (simp add: p_def)
    moreover have "\<forall>q\<in>set (butlast (p # ps)). period_to q - period_from q = i"
      using ps(3,5) e(4) by (auto simp: p_def)
    ultimately show ?thesis using True by blast
  qed
qed

section \<open>The scan of the sensors\<close>

lemma scanSensors_new:
  "newSensors (scanSensors latest ks scan) =
     newSensors scan @ filter (\<lambda>k. \<not> hasWatermark latest k) ks"
  by (induction ks arbitrary: scan) (auto simp: hasWatermark_def split: sum.splits)

lemma scanSensors_existing:
  "existingSensors (scanSensors latest ks scan) =
     existingSensors scan @ filter (hasWatermark latest) ks"
  by (induction ks arbitrary: scan) (auto simp: hasWatermark_def split: sum.splits)

lemma scanSensors_min:
  "minTsFrom (scanSensors latest ks scan) =
     fold min (map (watermark latest) (filter (hasWatermark latest) ks)) (minTsFrom scan)"
  by (induction ks arbitrary: scan)
     (auto simp: hasWatermark_def watermark_def min_def split: sum.splits)

lemma fold_min_Min: "fold min xs (a::int) = Min (insert a (set xs))"
  by (metis Min.set_eq_fold list.simps(15))

lemma scan_minTsFrom:
  assumes "scan = scanSensors latest ks (initialScan now)" "existingSensors scan \<noteq> []"
  shows "minTsFrom scan = min now (groupWatermark latest (existingSensors scan))"
proof -
  let ?ex = "filter (hasWatermark latest) ks"
  have ex: "existingSensors scan = ?ex"
    using assms(1) by (simp add: scanSensors_existing initialScan_def)
  then have ne: "set (map (watermark latest) ?ex) \<noteq> {}"
    using assms(2) by (auto simp: filter_empty_conv)
  have "minTsFrom scan = Min (insert now (set (map (watermark latest) ?ex)))"
    using assms(1) by (simp add: scanSensors_min initialScan_def fold_min_Min)
  also have "\<dots> = min now (Min (set (map (watermark latest) ?ex)))"
    using ne by (subst Min_insert) auto
  finally show ?thesis by (simp add: groupWatermark_def ex)
qed

lemma groupWatermark_pos:
  assumes "scan = scanSensors latest ks (initialScan now)" "existingSensors scan \<noteq> []"
  shows "0 < groupWatermark latest (existingSensors scan)"
proof -
  let ?ex = "filter (hasWatermark latest) ks"
  have ex: "existingSensors scan = ?ex"
    using assms(1) by (simp add: scanSensors_existing initialScan_def)
  have "\<forall>x\<in>set (map (watermark latest) ?ex). 0 < x"
    by (auto simp: hasWatermark_def watermark_def split: sum.splits)
  moreover have "set (map (watermark latest) ?ex) \<noteq> {}"
    using assms(2) ex by (auto simp: filter_empty_conv)
  ultimately show ?thesis unfolding groupWatermark_def ex
    by (subst Min_gr_iff) auto
qed

lemma groupWatermark_le:
  "k \<in> set ks \<Longrightarrow> groupWatermark latest ks \<le> watermark latest k"
  by (simp add: groupWatermark_def)

section \<open>The periods requested for the existing sensors\<close>

lemma existingTsFrom_watermark:
  assumes "scan = scanSensors latest ks (initialScan now)" "existingSensors scan \<noteq> []"
    and "groupWatermark latest (existingSensors scan) < now"
  shows "existingTsFrom now (minTsFrom scan) = groupWatermark latest (existingSensors scan) + 1"
  using scan_minTsFrom [OF assms(1,2)] groupWatermark_pos [OF assms(1,2)] assms(3)
  by (simp add: existingTsFrom_def)

lemma existingTsFrom_future:
  assumes "scan = scanSensors latest ks (initialScan now)" "existingSensors scan \<noteq> []"
    and "now \<le> groupWatermark latest (existingSensors scan)"
  shows "existingTsFrom now (minTsFrom scan) = now - 900000"
  using scan_minTsFrom [OF assms(1,2)] assms(3)
  by (simp add: existingTsFrom_def intervalMs_def)

lemma existingPeriods_unfold:
  "existingSensors scan \<noteq> [] \<Longrightarrow> existingPeriods now scan =
     (if existingTsFrom now (minTsFrom scan) < now - 2592000000
      then splitByDays_loop 2592000000 now (existingTsFrom now (minTsFrom scan)) []
      else Some [\<lparr>period_from = existingTsFrom now (minTsFrom scan), period_to = now\<rparr>])"
  by (simp add: existingPeriods_def splitTimePeriodByDays_def Let_def)

lemma chain_covers:
  assumes "chain lo ps hi" "ps \<noteq> []"
    and "\<forall>p\<in>set ps. period_from p < period_to p"
  shows "period_from (hd ps) = lo \<and> period_to (last ps) = hi
    \<and> (\<forall>i. Suc i < length ps \<longrightarrow> period_to (ps ! i) = period_from (ps ! Suc i))
    \<and> (\<forall>i j. i < j \<and> j < length ps \<longrightarrow> period_to (ps ! i) \<le> period_from (ps ! j))
    \<and> (\<Union>p\<in>set ps. {period_from p ..< period_to p}) = {lo ..< hi}"
  using chain_hd_last [OF assms(1,2)] chain_nth [OF assms(1)]
    chain_sorted [OF assms(1)] chain_union [OF assms(1)] assms(3)
  by (intro conjI allI impI) auto

text \<open>
  Claim C3, as amended. The claim asks for no window at all when the watermark is not
  before \<open>now\<close>. \<open>processDevice\<close> does request one: when the oldest watermark of the
  existing sensors is \<open>now\<close> or later, the guard \<open>minTsFrom < now\<close> fails, \<open>tsFrom\<close> keeps
  its default \<open>now - intervalMs\<close>, and the single period requested is the last 15 minutes,
  \<open>[now - 900000, now)\<close>. It has a positive length. The counterexample is a station with
  one sensor whose last stored timestamp is \<open>now\<close>.
\<close>

theorem planner_future_watermark_window:
  assumes "scan = scanSensors latest keys (initialScan now)"
    and "existingSensors scan \<noteq> []"
    and "now \<le> groupWatermark latest (existingSensors scan)"
  shows "existingPeriods now scan = Some [\<lparr>period_from = now - 15 * 60 * 1000, period_to = now\<rparr>]"
  using existingTsFrom_future [OF assms]
  by (simp add: existingPeriods_unfold [OF assms(2)])

theorem planner_future_watermark_counterexample:
  "existingPeriods 1700000000000
     (scanSensors (\<lambda>k. Inr 1700000000000) [''airtemp''] (initialScan 1700000000000))
   = Some [\<lparr>period_from = 1699999100000, period_to = 1700000000000\<rparr>]"
  by (simp add: existingPeriods_def existingTsFrom_def intervalMs_def initialScan_def)

theorem planner_future_watermark_window_witness:
  "existingSensors (scanSensors (\<lambda>k. Inr 1700000005000) [''airtemp''] (initialScan 1700000000000)) \<noteq> []
   \<and> 1700000000000 \<le> groupWatermark (\<lambda>k. Inr 1700000005000)
        (existingSensors (scanSensors (\<lambda>k. Inr 1700000005000) [''airtemp''] (initialScan 1700000000000)))
   \<and> existingPeriods 1700000000000
        (scanSensors (\<lambda>k. Inr 1700000005000) [''airtemp''] (initialScan 1700000000000))
       = Some [\<lparr>period_from = 1699999100000, period_to = 1700000000000\<rparr>]"
  using planner_future_watermark_window
    [of "scanSensors (\<lambda>k. Inr 1700000005000) [''airtemp''] (initialScan 1700000000000)"
        "\<lambda>k. Inr 1700000005000" "[''airtemp'']" 1700000000000]
  by (simp add: initialScan_def groupWatermark_def watermark_def)

text \<open>
  Claim C4. When the oldest watermark \<open>w\<close> of the existing sensors lies before \<open>now\<close> by
  at most 30 days, \<open>processDevice\<close> requests exactly one period, from \<open>w + 1\<close> to \<open>now\<close>.
\<close>

theorem planner_recent_watermark_single_window:
  assumes "scan = scanSensors latest keys (initialScan now)"
    and "existingSensors scan \<noteq> []"
    and "w = groupWatermark latest (existingSensors scan)"
    and "0 < now - w" and "now - w \<le> 30 * 24 * 60 * 60 * 1000"
  shows "existingPeriods now scan = Some [\<lparr>period_from = w + 1, period_to = now\<rparr>]"
proof -
  have "existingTsFrom now (minTsFrom scan) = w + 1"
    using existingTsFrom_watermark [OF assms(1,2)] assms(3,4) by simp
  then show ?thesis
    using assms(5) by (simp add: existingPeriods_unfold [OF assms(2)])
qed

theorem planner_recent_watermark_single_window_witness:
  "existingSensors (scanSensors (\<lambda>k. Inr 1700000000000) [''airtemp''] (initialScan 1700000600000)) \<noteq> []
   \<and> groupWatermark (\<lambda>k. Inr 1700000000000)
        (existingSensors (scanSensors (\<lambda>k. Inr 1700000000000) [''airtemp''] (initialScan 1700000600000)))
       = 1700000000000
   \<and> existingPeriods 1700000600000
        (scanSensors (\<lambda>k. Inr 1700000000000) [''airtemp''] (initialScan 1700000600000))
       = Some [\<lparr>period_from = 1700000000001, period_to = 1700000600000\<rparr>]"
  using planner_recent_watermark_single_window
    [of "scanSensors (\<lambda>k. Inr 1700000000000) [''airtemp''] (initialScan 1700000600000)"
        "\<lambda>k. Inr 1700000000000" "[''airtemp'']" 1700000600000 1700000000000]
  by (simp add: initialScan_def groupWatermark_def watermark_def)

text \<open>
  Claim C5. When the oldest watermark \<open>w\<close> of the existing sensors is more than 30 days
  before \<open>now\<close>, the periods requested exist (the loop of \<open>splitTimePeriodByDays\<close>
  returns), are not empty, start at \<open>w + 1\<close> and end at \<open>now\<close>, each ends where the next
  starts, no two overlap, together they are exactly \<open>[w + 1, now)\<close>, every one but the
  last is exactly 30 days long and none is longer than 30 days.
\<close>

theorem planner_old_watermark_windows:
  assumes "scan = scanSensors latest keys (initialScan now)"
    and "existingSensors scan \<noteq> []"
    and "w = groupWatermark latest (existingSensors scan)"
    and "now - w > 30 * 24 * 60 * 60 * 1000"
  shows "\<exists>ps. existingPeriods now scan = Some ps \<and> ps \<noteq> []
    \<and> period_from (hd ps) = w + 1 \<and> period_to (last ps) = now
    \<and> (\<forall>i. Suc i < length ps \<longrightarrow> period_to (ps ! i) = period_from (ps ! Suc i))
    \<and> (\<forall>i j. i < j \<and> j < length ps \<longrightarrow> period_to (ps ! i) \<le> period_from (ps ! j))
    \<and> (\<Union>p\<in>set ps. {period_from p ..< period_to p}) = {w + 1 ..< now}
    \<and> (\<forall>p\<in>set (butlast ps). period_to p - period_from p = 30 * 24 * 60 * 60 * 1000)
    \<and> (\<forall>p\<in>set ps. 0 < period_to p - period_from p
                   \<and> period_to p - period_from p \<le> 30 * 24 * 60 * 60 * 1000)"
proof -
  have ts: "existingTsFrom now (minTsFrom scan) = w + 1"
    using existingTsFrom_watermark [OF assms(1,2)] assms(3,4) by simp
  have "\<exists>ps. existingPeriods now scan = Some ps \<and> ps \<noteq> [] \<and> chain (w + 1) ps now
      \<and> (\<forall>p\<in>set ps. period_from p < period_to p \<and> period_to p - period_from p \<le> 2592000000)
      \<and> (\<forall>p\<in>set (butlast ps). period_to p - period_from p = 2592000000)"
  proof (cases "w + 1 < now - 2592000000")
    case True
    have "w + 1 \<le> now" using True by simp
    from splitByDays_loop_total [of 2592000000, OF _ this, of "[]"]
    obtain ps where ps: "splitByDays_loop 2592000000 now (w + 1) [] = Some ps"
      "chain (w + 1) ps now" "ps = [] \<longleftrightarrow> w + 1 = now"
      "\<forall>p\<in>set ps. period_from p < period_to p \<and> period_to p - period_from p \<le> 2592000000"
      "\<forall>p\<in>set (butlast ps). period_to p - period_from p = 2592000000"
      by auto
    have "existingPeriods now scan = Some ps"
      using True ps(1) by (simp add: existingPeriods_unfold [OF assms(2)] ts)
    moreover have "ps \<noteq> []" using ps(3) True by simp
    ultimately show ?thesis using ps(2,4,5) by blast
  next
    case False
    then have eq: "now - (w + 1) = 2592000000" using assms(4) by simp
    have "existingPeriods now scan = Some [\<lparr>period_from = w + 1, period_to = now\<rparr>]"
      using False by (simp add: existingPeriods_unfold [OF assms(2)] ts)
    then show ?thesis using eq by simp
  qed
  then obtain ps where ps: "existingPeriods now scan = Some ps" "ps \<noteq> []" "chain (w + 1) ps now"
      "\<forall>p\<in>set ps. period_from p < period_to p \<and> period_to p - period_from p \<le> 2592000000"
      "\<forall>p\<in>set (butlast ps). period_to p - period_from p = 2592000000"
    by blast
  have "\<forall>p\<in>set ps. period_from p < period_to p" using ps(4) by blast
  note c = chain_covers [OF ps(3) ps(2) this]
  have a: "\<forall>p\<in>set ps. 0 < period_to p - period_from p
                   \<and> period_to p - period_from p \<le> 30 * 24 * 60 * 60 * 1000"
    using ps(4) by auto
  have b: "\<forall>p\<in>set (butlast ps). period_to p - period_from p = 30 * 24 * 60 * 60 * 1000"
    using ps(5) by simp
  show ?thesis using ps(1,2) c a b by blast
qed

theorem planner_old_watermark_windows_witness:
  "existingSensors (scanSensors (\<lambda>k. Inr 1700000000000) [''airtemp''] (initialScan 1706048000001)) \<noteq> []
   \<and> groupWatermark (\<lambda>k. Inr 1700000000000)
        (existingSensors (scanSensors (\<lambda>k. Inr 1700000000000) [''airtemp''] (initialScan 1706048000001)))
       = 1700000000000
   \<and> existingPeriods 1706048000001
        (scanSensors (\<lambda>k. Inr 1700000000000) [''airtemp''] (initialScan 1706048000001))
       = Some [\<lparr>period_from = 1700000000001, period_to = 1702592000001\<rparr>,
               \<lparr>period_from = 1702592000001, period_to = 1705184000001\<rparr>,
               \<lparr>period_from = 1705184000001, period_to = 1706048000001\<rparr>]
   \<and> (\<exists>ps. existingPeriods 1706048000001
        (scanSensors (\<lambda>k. Inr 1700000000000) [''airtemp''] (initialScan 1706048000001)) = Some ps
        \<and> ps \<noteq> [] \<and> period_from (hd ps) = 1700000000001 \<and> period_to (last ps) = 1706048000001
        \<and> (\<Union>p\<in>set ps. {period_from p ..< period_to p}) = {1700000000001 ..< 1706048000001})"
proof -
  have h: "existingSensors (scanSensors (\<lambda>k. Inr 1700000000000) [''airtemp''] (initialScan 1706048000001)) \<noteq> []"
    by (simp add: initialScan_def)
  have g: "groupWatermark (\<lambda>k. Inr 1700000000000)
        (existingSensors (scanSensors (\<lambda>k. Inr 1700000000000) [''airtemp''] (initialScan 1706048000001)))
       = 1700000000000"
    by (simp add: initialScan_def groupWatermark_def watermark_def)
  have v: "existingPeriods 1706048000001
        (scanSensors (\<lambda>k. Inr 1700000000000) [''airtemp''] (initialScan 1706048000001))
       = Some [\<lparr>period_from = 1700000000001, period_to = 1702592000001\<rparr>,
               \<lparr>period_from = 1702592000001, period_to = 1705184000001\<rparr>,
               \<lparr>period_from = 1705184000001, period_to = 1706048000001\<rparr>]"
    by code_simp
  have "\<exists>ps. existingPeriods 1706048000001
        (scanSensors (\<lambda>k. Inr 1700000000000) [''airtemp''] (initialScan 1706048000001)) = Some ps
        \<and> ps \<noteq> [] \<and> period_from (hd ps) = 1700000000001 \<and> period_to (last ps) = 1706048000001
        \<and> (\<Union>p\<in>set ps. {period_from p ..< period_to p}) = {1700000000001 ..< 1706048000001}"
    using planner_old_watermark_windows [OF refl h g [symmetric]] h g by auto
  then show ?thesis using h g v by blast
qed

section \<open>The two groups of sensors\<close>

lemma existingPeriods_first:
  assumes "existingSensors scan \<noteq> []"
  shows "\<exists>ps. existingPeriods now scan = Some ps \<and> ps \<noteq> []
     \<and> period_from (hd ps) = existingTsFrom now (minTsFrom scan) \<and> period_to (last ps) = now"
proof (cases "existingTsFrom now (minTsFrom scan) < now - 2592000000")
  case True
  let ?t = "existingTsFrom now (minTsFrom scan)"
  have le: "?t \<le> now" using True by simp
  from splitByDays_loop_total [of 2592000000, OF _ le, of "[]"]
  obtain ps where ps: "splitByDays_loop 2592000000 now ?t [] = Some ps"
    "chain ?t ps now" "ps = [] \<longleftrightarrow> ?t = now"
    by auto
  have ne: "ps \<noteq> []" using ps(3) True by simp
  have "existingPeriods now scan = Some ps"
    using True ps(1) by (simp add: existingPeriods_unfold [OF assms])
  then show ?thesis using ne chain_hd_last [OF ps(2) ne] by simp
next
  case False
  then show ?thesis by (simp add: existingPeriods_unfold [OF assms])
qed

text \<open>
  \<open>processDevice\<close> returns whenever the backfill periods of the new sensors exist: the
  periods of the existing sensors always do.
\<close>

lemma existingPeriods_returns: "\<exists>ps. existingPeriods now scan = Some ps"
proof (cases "existingSensors scan = []")
  case True
  then show ?thesis by (simp add: existingPeriods_def)
next
  case False
  then show ?thesis using existingPeriods_first [of scan now] by blast
qed

lemma processDevice_returns:
  assumes "scan = scanSensors (GetLatestTelemetryTimestamp queryFails db (ID device))
                    sensorKeys (initialScan now)"
    and "newPeriods loc now scan = Some periodsNew"
  shows "\<exists>periodsExisting. existingPeriods now scan = Some periodsExisting
     \<and> processDevice loc queryFails now device (w, db) =
         Some (fetchPeriods (ID device) (existingSensors scan) periodsExisting
                 (fetchPeriods (ID device) (newSensors scan) periodsNew (0, w, db)))"
proof -
  obtain ps where ps: "existingPeriods now scan = Some ps"
    using existingPeriods_returns by blast
  then show ?thesis
    using assms by (simp add: processDevice_def Let_def)
qed

lemma processDevice_no_new_sensor:
  assumes "scan = scanSensors (GetLatestTelemetryTimestamp queryFails db (ID device))
                    sensorKeys (initialScan now)"
    and "newSensors scan = []"
  shows "\<exists>periodsExisting. existingPeriods now scan = Some periodsExisting
     \<and> processDevice loc queryFails now device (w, db) =
         Some (fetchPeriods (ID device) (existingSensors scan) periodsExisting (0, w, db))"
proof -
  have "newPeriods loc now scan = Some []" using assms(2) by (simp add: newPeriods_def)
  from processDevice_returns [OF assms(1) this, of w] show ?thesis by simp
qed

lemma example_scan:
  "scanSensors (GetLatestTelemetryTimestamp neverFails exampleDb ''S1'') sensorKeys (initialScan now)
   = \<lparr>newSensors = [''airtemp'', ''airmoist'', ''rainfall'', ''rainfall_daily'',
                     ''windspeed'', ''windspeedmax'', ''winddir'', ''winddirang''],
      existingSensors = [''soiltemp''],
      minTsFrom = (if 1700000005000 < now then 1700000005000 else now),
      sensorLastTs = [''airtemp'' \<mapsto> 0, ''soiltemp'' \<mapsto> 1700000005000, ''airmoist'' \<mapsto> 0,
        ''rainfall'' \<mapsto> 0, ''rainfall_daily'' \<mapsto> 0, ''windspeed'' \<mapsto> 0, ''windspeedmax'' \<mapsto> 0,
        ''winddir'' \<mapsto> 0, ''winddirang'' \<mapsto> 0]\<rparr>"
  by (simp add: sensorKeys_def initialScan_def GetLatestTelemetryTimestamp_def neverFails_def
      exampleDb_def)

text \<open>
  Claim C8, as amended. The scan splits the sensor keys into the new sensors (no
  watermark) and the existing ones, in order. The new ones share one backfill,
  \<open>splitTimePeriodByMonth\<close> over the last 365 days. The periods of the existing ones start
  at \<open>tsFrom\<close>. When the oldest watermark of the existing sensors is before \<open>now\<close>,
  \<open>tsFrom\<close> is that watermark plus one millisecond, which is not after any existing
  sensor's own watermark plus one. When it is not before \<open>now\<close>, \<open>tsFrom\<close> is
  \<open>now - 15 min\<close> instead: the claim's "minimum watermark plus one" fails there, as the
  counterexample shows for a station whose only stored reading is 5 seconds ahead of
  \<open>now\<close>.
\<close>

theorem sensor_groups_and_lower_bound:
  assumes "scan = scanSensors latest keys (initialScan now)"
  shows "newSensors scan = filter (\<lambda>k. \<not> hasWatermark latest k) keys
    \<and> existingSensors scan = filter (hasWatermark latest) keys
    \<and> newPeriods loc now scan =
        (if newSensors scan = [] then Some []
         else splitTimePeriodByMonth loc (now - 365 * 24 * 60 * 60 * 1000) now)
    \<and> (existingSensors scan \<noteq> [] \<longrightarrow>
          (\<exists>ps. existingPeriods now scan = Some ps \<and> ps \<noteq> []
             \<and> period_from (hd ps) = existingTsFrom now (minTsFrom scan))
        \<and> (groupWatermark latest (existingSensors scan) < now \<longrightarrow>
              existingTsFrom now (minTsFrom scan) = groupWatermark latest (existingSensors scan) + 1
            \<and> (\<forall>k\<in>set (existingSensors scan).
                  existingTsFrom now (minTsFrom scan) \<le> watermark latest k + 1))
        \<and> (now \<le> groupWatermark latest (existingSensors scan) \<longrightarrow>
              existingTsFrom now (minTsFrom scan) = now - 15 * 60 * 1000))"
proof -
  have n: "newSensors scan = filter (\<lambda>k. \<not> hasWatermark latest k) keys"
    and e: "existingSensors scan = filter (hasWatermark latest) keys"
    using assms by (simp_all add: scanSensors_new scanSensors_existing initialScan_def)
  have p: "newPeriods loc now scan =
        (if newSensors scan = [] then Some []
         else splitTimePeriodByMonth loc (now - 365 * 24 * 60 * 60 * 1000) now)"
    by (simp add: newPeriods_def)
  have x: "existingSensors scan \<noteq> [] \<longrightarrow>
          (\<exists>ps. existingPeriods now scan = Some ps \<and> ps \<noteq> []
             \<and> period_from (hd ps) = existingTsFrom now (minTsFrom scan))
        \<and> (groupWatermark latest (existingSensors scan) < now \<longrightarrow>
              existingTsFrom now (minTsFrom scan) = groupWatermark latest (existingSensors scan) + 1
            \<and> (\<forall>k\<in>set (existingSensors scan).
                  existingTsFrom now (minTsFrom scan) \<le> watermark latest k + 1))
        \<and> (now \<le> groupWatermark latest (existingSensors scan) \<longrightarrow>
              existingTsFrom now (minTsFrom scan) = now - 15 * 60 * 1000)"
  proof (intro impI conjI)
    assume ne: "existingSensors scan \<noteq> []"
    show "\<exists>ps. existingPeriods now scan = Some ps \<and> ps \<noteq> []
             \<and> period_from (hd ps) = existingTsFrom now (minTsFrom scan)"
      using existingPeriods_first [OF ne, of now] by blast
    {
      assume lt: "groupWatermark latest (existingSensors scan) < now"
      show eq: "existingTsFrom now (minTsFrom scan) = groupWatermark latest (existingSensors scan) + 1"
        using existingTsFrom_watermark [OF assms ne lt] .
      show "\<forall>k\<in>set (existingSensors scan).
                  existingTsFrom now (minTsFrom scan) \<le> watermark latest k + 1"
        using eq groupWatermark_le [of _ "existingSensors scan" latest] by auto
    }
    {
      assume "now \<le> groupWatermark latest (existingSensors scan)"
      then show "existingTsFrom now (minTsFrom scan) = now - 15 * 60 * 1000"
        using existingTsFrom_future [OF assms ne] by simp
    }
  qed
  show ?thesis using n e p x by blast
qed

theorem sensor_groups_future_watermark_counterexample:
  "existingSensors (scanSensors (GetLatestTelemetryTimestamp neverFails exampleDb ''S1'')
       sensorKeys (initialScan 1700000000000)) = [''soiltemp'']
   \<and> groupWatermark (GetLatestTelemetryTimestamp neverFails exampleDb ''S1'') [''soiltemp'']
       = 1700000005000
   \<and> existingTsFrom 1700000000000
        (minTsFrom (scanSensors (GetLatestTelemetryTimestamp neverFails exampleDb ''S1'')
           sensorKeys (initialScan 1700000000000))) = 1699999100000"
proof -
  have "groupWatermark (GetLatestTelemetryTimestamp neverFails exampleDb ''S1'') [''soiltemp'']
       = 1700000005000"
    by (simp add: groupWatermark_def watermark_def GetLatestTelemetryTimestamp_def
        neverFails_def exampleDb_def)
  then show ?thesis
    by (simp add: example_scan existingTsFrom_def intervalMs_def)
qed

theorem sensor_groups_and_lower_bound_witness:
  "existingSensors (scanSensors (GetLatestTelemetryTimestamp neverFails exampleDb ''S1'')
       sensorKeys (initialScan 1700000600000)) = [''soiltemp'']
   \<and> groupWatermark (GetLatestTelemetryTimestamp neverFails exampleDb ''S1'') [''soiltemp'']
       = 1700000005000
   \<and> existingTsFrom 1700000600000
        (minTsFrom (scanSensors (GetLatestTelemetryTimestamp neverFails exampleDb ''S1'')
           sensorKeys (initialScan 1700000600000))) = 1700000005001"
proof -
  let ?latest = "GetLatestTelemetryTimestamp neverFails exampleDb ''S1''"
  let ?scan = "scanSensors ?latest sensorKeys (initialScan 1700000600000)"
  have e: "existingSensors ?scan = [''soiltemp'']" by (simp add: example_scan)
  have g: "groupWatermark ?latest [''soiltemp''] = 1700000005000"
    by (simp add: groupWatermark_def watermark_def GetLatestTelemetryTimestamp_def
        neverFails_def exampleDb_def)
  show ?thesis
    using sensor_groups_and_lower_bound [OF refl, of ?latest sensorKeys 1700000600000 0] e g
    by simp
qed

text \<open>
  Claim C9. A sensor key whose query for the latest timestamp fails is put into the new
  sensors, not into the existing ones, so the backfill periods are requested for it;
  the scan goes on: every key ends in one of the two groups, and the existing group is
  made of exactly the keys that have a watermark.
\<close>

theorem failed_watermark_read_is_new:
  assumes "scan = scanSensors (GetLatestTelemetryTimestamp queryFails db stationID) keys
                    (initialScan now)"
    and "sensorKey \<in> set keys" and "queryFails stationID sensorKey"
  shows "sensorKey \<in> set (newSensors scan) \<and> sensorKey \<notin> set (existingSensors scan)
    \<and> newPeriods loc now scan = splitTimePeriodByMonth loc (now - 365 * 24 * 60 * 60 * 1000) now
    \<and> set (newSensors scan) \<union> set (existingSensors scan) = set keys
    \<and> existingSensors scan =
        filter (hasWatermark (GetLatestTelemetryTimestamp queryFails db stationID)) keys"
proof -
  let ?latest = "GetLatestTelemetryTimestamp queryFails db stationID"
  have n: "newSensors scan = filter (\<lambda>k. \<not> hasWatermark ?latest k) keys"
    and e: "existingSensors scan = filter (hasWatermark ?latest) keys"
    using assms(1) by (simp_all add: scanSensors_new scanSensors_existing initialScan_def)
  have f: "\<not> hasWatermark ?latest sensorKey"
    using assms(3) by (simp add: hasWatermark_def GetLatestTelemetryTimestamp_def)
  have m: "sensorKey \<in> set (newSensors scan)" using n f assms(2) by simp
  then have "newSensors scan \<noteq> []" by auto
  then have "newPeriods loc now scan = splitTimePeriodByMonth loc (now - 365 * 24 * 60 * 60 * 1000) now"
    by (simp add: newPeriods_def)
  moreover have "sensorKey \<notin> set (existingSensors scan)" using e f by simp
  moreover have "set (newSensors scan) \<union> set (existingSensors scan) = set keys"
    using n e by auto
  ultimately show ?thesis using m e by blast
qed

theorem failed_watermark_read_is_new_witness:
  "''winddir'' \<in> set sensorKeys \<and> winddirFails ''S1'' ''winddir''
   \<and> ''winddir'' \<in> set (newSensors (scanSensors
         (GetLatestTelemetryTimestamp winddirFails exampleDb ''S1'') sensorKeys
         (initialScan 1700000600000)))
   \<and> existingSensors (scanSensors
         (GetLatestTelemetryTimestamp winddirFails exampleDb ''S1'') sensorKeys
         (initialScan 1700000600000)) = [''soiltemp'']"
proof -
  have k: "''winddir'' \<in> set sensorKeys" by (simp add: sensorKeys_def)
  have f: "winddirFails ''S1'' ''winddir''" by (simp add: winddirFails_def)
  have h: "filter (hasWatermark (GetLatestTelemetryTimestamp winddirFails exampleDb ''S1''))
             sensorKeys = [''soiltemp'']"
    by (simp add: sensorKeys_def hasWatermark_def GetLatestTelemetryTimestamp_def
        winddirFails_def exampleDb_def)
  show ?thesis
    using failed_watermark_read_is_new
      [of "scanSensors (GetLatestTelemetryTimestamp winddirFails exampleDb ''S1'') sensorKeys
             (initialScan 1700000600000)"
          winddirFails exampleDb "''S1''" sensorKeys 1700000600000 "''winddir''" 0, OF refl k f]
      k f h
    by simp
qed

section \<open>Retries of the client\<close>

lemma countLogins_retrySent:
  "(\<And>sid. mk sid \<noteq> PostLogin) \<Longrightarrow> countLogins (retrySent mk sid sid' n) = n"
  by (induction n arbitrary: sid) (auto simp: countLogins_def)

lemma length_retrySent: "length (retrySent mk sid sid' n) = 2 * n + 1"
  by (induction n arbitrary: sid) auto

lemma ensureSession_have: "SessionID w \<noteq> [] \<Longrightarrow> ensureSession w = (None, w)"
  by (simp add: ensureSession_def)

lemma Post_Cons: "Replies w = r # rs \<Longrightarrow> Post req w = (r, w\<lparr>Replies := rs, Sent := Sent w @ [req]\<rparr>)"
  by (simp add: Post_def)

lemma Login_ok:
  "Replies w = Body lg # rs \<Longrightarrow> Status lg \<noteq> ''error'' \<Longrightarrow> Sid lg \<noteq> [] \<Longrightarrow>
     Login w = (None, w\<lparr>Replies := rs, Sent := Sent w @ [PostLogin], SessionID := Sid lg\<rparr>)"
  by (simp add: Login_def Post_Cons)

lemma Login_refused:
  "Replies w = Body lg # rs \<Longrightarrow> Status lg = ''error'' \<Longrightarrow>
     Login w = (Some ErrAuth, w\<lparr>Replies := rs, Sent := Sent w @ [PostLogin]\<rparr>)"
  by (simp add: Login_def Post_Cons)

lemma GetTelemetry_retry:
  assumes "SessionID w \<noteq> []" "Replies w = Body bad # Body lg # rest"
    and "Status bad \<noteq> ''OK''" "Status lg \<noteq> ''error''" "Sid lg \<noteq> []"
  shows "GetTelemetry d ks f t w =
     GetTelemetry d ks f t
       (w\<lparr>Replies := rest,
          Sent := Sent w @ [PostTelemetry (SessionID w) [d] ks f t, PostLogin],
          SessionID := Sid lg\<rparr>)"
proof -
  let ?w2 = "w\<lparr>Replies := Body lg # rest, Sent := Sent w @ [PostTelemetry (SessionID w) [d] ks f t]\<rparr>"
  have p: "Post (PostTelemetry (SessionID w) [d] ks f t) w = (Body bad, ?w2)"
    using assms(2) by (simp add: Post_Cons)
  have l: "Login ?w2 = (None, ?w2\<lparr>Replies := rest, Sent := Sent ?w2 @ [PostLogin], SessionID := Sid lg\<rparr>)"
    using assms(4,5) by (intro Login_ok) simp_all
  show ?thesis
    by (subst GetTelemetry.simps) (simp add: ensureSession_have [OF assms(1)] p l assms(3))
qed

lemma GetTelemetry_ok:
  assumes "SessionID w \<noteq> []" "Replies w = Body ok # rest" "Status ok = ''OK''"
  shows "GetTelemetry d ks f t w =
     (Inr (toResult (Data ok) []),
      w\<lparr>Replies := rest, Sent := Sent w @ [PostTelemetry (SessionID w) [d] ks f t]\<rparr>)"
  by (subst GetTelemetry.simps)
     (simp add: ensureSession_have [OF assms(1)] Post_Cons [OF assms(2)] assms(3))

lemma GetTelemetry_login_refused:
  assumes "SessionID w \<noteq> []" "Replies w = Body bad # Body lg # rest"
    and "Status bad \<noteq> ''OK''" "Status lg = ''error''"
  shows "GetTelemetry d ks f t w =
     (Inl ErrAuth, w\<lparr>Replies := rest,
          Sent := Sent w @ [PostTelemetry (SessionID w) [d] ks f t, PostLogin]\<rparr>)"
proof -
  let ?w2 = "w\<lparr>Replies := Body lg # rest, Sent := Sent w @ [PostTelemetry (SessionID w) [d] ks f t]\<rparr>"
  have p: "Post (PostTelemetry (SessionID w) [d] ks f t) w = (Body bad, ?w2)"
    using assms(2) by (simp add: Post_Cons)
  have l: "Login ?w2 = (Some ErrAuth, ?w2\<lparr>Replies := rest, Sent := Sent ?w2 @ [PostLogin]\<rparr>)"
    using assms(4) by (intro Login_refused) simp_all
  show ?thesis
    by (subst GetTelemetry.simps) (simp add: ensureSession_have [OF assms(1)] p l assms(3))
qed

lemma GetTelemetry_retries:
  assumes "Status bad \<noteq> ''OK''" "Status lg \<noteq> ''error''" "Sid lg \<noteq> []" "Status ok = ''OK''"
  shows "SessionID w \<noteq> [] \<Longrightarrow> Replies w = retryReplies bad lg n @ Body ok # rest \<Longrightarrow>
     GetTelemetry d ks f t w =
       (Inr (toResult (Data ok) []),
        w\<lparr>Replies := rest,
          Sent := Sent w @ retrySent (\<lambda>sid. PostTelemetry sid [d] ks f t) (SessionID w) (Sid lg) n,
          SessionID := (if n = 0 then SessionID w else Sid lg)\<rparr>)"
proof (induction n arbitrary: w)
  case 0
  then show ?case using GetTelemetry_ok [OF "0.prems"(1) _ assms(4), of rest d ks f t]
    by (simp add: retryReplies_def)
next
  case (Suc n)
  let ?w3 = "w\<lparr>Replies := retryReplies bad lg n @ Body ok # rest,
          Sent := Sent w @ [PostTelemetry (SessionID w) [d] ks f t, PostLogin],
          SessionID := Sid lg\<rparr>"
  have r: "Replies w = Body bad # Body lg # retryReplies bad lg n @ Body ok # rest"
    using Suc.prems(2) by (simp add: retryReplies_def)
  have "GetTelemetry d ks f t w = GetTelemetry d ks f t ?w3"
    using GetTelemetry_retry [OF Suc.prems(1) r assms(1,2,3)] .
  also have "\<dots> = (Inr (toResult (Data ok) []),
        ?w3\<lparr>Replies := rest,
          Sent := Sent ?w3 @ retrySent (\<lambda>sid. PostTelemetry sid [d] ks f t) (SessionID ?w3) (Sid lg) n,
          SessionID := (if n = 0 then SessionID ?w3 else Sid lg)\<rparr>)"
    using assms(3) by (intro Suc.IH) simp_all
  finally show ?case by simp
qed

lemma GetTelemetry_retries_refused:
  assumes "Status bad \<noteq> ''OK''" "Status lg \<noteq> ''error''" "Sid lg \<noteq> []" "Status no = ''error''"
  shows "SessionID w \<noteq> [] \<Longrightarrow> Replies w = retryReplies bad lg n @ Body bad # Body no # rest \<Longrightarrow>
     GetTelemetry d ks f t w =
       (Inl ErrAuth,
        w\<lparr>Replies := rest,
          Sent := Sent w @ retrySent (\<lambda>sid. PostTelemetry sid [d] ks f t) (SessionID w) (Sid lg) n
                    @ [PostLogin],
          SessionID := (if n = 0 then SessionID w else Sid lg)\<rparr>)"
proof (induction n arbitrary: w)
  case 0
  then show ?case
    using GetTelemetry_login_refused [OF "0.prems"(1) _ assms(1,4), of rest d ks f t]
    by (simp add: retryReplies_def)
next
  case (Suc n)
  let ?w3 = "w\<lparr>Replies := retryReplies bad lg n @ Body bad # Body no # rest,
          Sent := Sent w @ [PostTelemetry (SessionID w) [d] ks f t, PostLogin],
          SessionID := Sid lg\<rparr>"
  have r: "Replies w = Body bad # Body lg # retryReplies bad lg n @ Body bad # Body no # rest"
    using Suc.prems(2) by (simp add: retryReplies_def)
  have "GetTelemetry d ks f t w = GetTelemetry d ks f t ?w3"
    using GetTelemetry_retry [OF Suc.prems(1) r assms(1,2,3)] .
  also have "\<dots> = (Inl ErrAuth,
        ?w3\<lparr>Replies := rest,
          Sent := Sent ?w3 @ retrySent (\<lambda>sid. PostTelemetry sid [d] ks f t) (SessionID ?w3) (Sid lg) n
                    @ [PostLogin],
          SessionID := (if n = 0 then SessionID ?w3 else Sid lg)\<rparr>)"
    using assms(3) by (intro Suc.IH) simp_all
  finally show ?case by simp
qed

lemma GetDevices_retry:
  assumes "SessionID w \<noteq> []" "Replies w = Body bad # Body lg # rest"
    and "Status bad \<noteq> ''OK''" "Status lg \<noteq> ''error''" "Sid lg \<noteq> []"
  shows "GetDevices w =
     GetDevices
       (w\<lparr>Replies := rest,
          Sent := Sent w @ [PostDevices (SessionID w), PostLogin],
          SessionID := Sid lg\<rparr>)"
proof -
  let ?w2 = "w\<lparr>Replies := Body lg # rest, Sent := Sent w @ [PostDevices (SessionID w)]\<rparr>"
  have p: "Post (PostDevices (SessionID w)) w = (Body bad, ?w2)"
    using assms(2) by (simp add: Post_Cons)
  have l: "Login ?w2 = (None, ?w2\<lparr>Replies := rest, Sent := Sent ?w2 @ [PostLogin], SessionID := Sid lg\<rparr>)"
    using assms(4,5) by (intro Login_ok) simp_all
  show ?thesis
    by (subst GetDevices.simps) (simp add: ensureSession_have [OF assms(1)] p l assms(3))
qed

lemma GetDevices_ok:
  assumes "SessionID w \<noteq> []" "Replies w = Body ok # rest" "Status ok = ''OK''"
  shows "GetDevices w =
     (Inr (Devices ok),
      w\<lparr>Replies := rest, Sent := Sent w @ [PostDevices (SessionID w)]\<rparr>)"
  by (subst GetDevices.simps)
     (simp add: ensureSession_have [OF assms(1)] Post_Cons [OF assms(2)] assms(3))

lemma GetDevices_login_refused:
  assumes "SessionID w \<noteq> []" "Replies w = Body bad # Body lg # rest"
    and "Status bad \<noteq> ''OK''" "Status lg = ''error''"
  shows "GetDevices w =
     (Inl ErrAuth, w\<lparr>Replies := rest,
          Sent := Sent w @ [PostDevices (SessionID w), PostLogin]\<rparr>)"
proof -
  let ?w2 = "w\<lparr>Replies := Body lg # rest, Sent := Sent w @ [PostDevices (SessionID w)]\<rparr>"
  have p: "Post (PostDevices (SessionID w)) w = (Body bad, ?w2)"
    using assms(2) by (simp add: Post_Cons)
  have l: "Login ?w2 = (Some ErrAuth, ?w2\<lparr>Replies := rest, Sent := Sent ?w2 @ [PostLogin]\<rparr>)"
    using assms(4) by (intro Login_refused) simp_all
  show ?thesis
    by (subst GetDevices.simps) (simp add: ensureSession_have [OF assms(1)] p l assms(3))
qed

lemma GetDevices_retries:
  assumes "Status bad \<noteq> ''OK''" "Status lg \<noteq> ''error''" "Sid lg \<noteq> []" "Status ok = ''OK''"
  shows "SessionID w \<noteq> [] \<Longrightarrow> Replies w = retryReplies bad lg n @ Body ok # rest \<Longrightarrow>
     GetDevices w =
       (Inr (Devices ok),
        w\<lparr>Replies := rest,
          Sent := Sent w @ retrySent PostDevices (SessionID w) (Sid lg) n,
          SessionID := (if n = 0 then SessionID w else Sid lg)\<rparr>)"
proof (induction n arbitrary: w)
  case 0
  then show ?case using GetDevices_ok [OF "0.prems"(1) _ assms(4), of rest]
    by (simp add: retryReplies_def)
next
  case (Suc n)
  let ?w3 = "w\<lparr>Replies := retryReplies bad lg n @ Body ok # rest,
          Sent := Sent w @ [PostDevices (SessionID w), PostLogin],
          SessionID := Sid lg\<rparr>"
  have r: "Replies w = Body bad # Body lg # retryReplies bad lg n @ Body ok # rest"
    using Suc.prems(2) by (simp add: retryReplies_def)
  have "GetDevices w = GetDevices ?w3"
    using GetDevices_retry [OF Suc.prems(1) r assms(1,2,3)] .
  also have "\<dots> = (Inr (Devices ok),
        ?w3\<lparr>Replies := rest,
          Sent := Sent ?w3 @ retrySent PostDevices (SessionID ?w3) (Sid lg) n,
          SessionID := (if n = 0 then SessionID ?w3 else Sid lg)\<rparr>)"
    using assms(3) by (intro Suc.IH) simp_all
  finally show ?case by simp
qed

lemma GetDevices_retries_refused:
  assumes "Status bad \<noteq> ''OK''" "Status lg \<noteq> ''error''" "Sid lg \<noteq> []" "Status no = ''error''"
  shows "SessionID w \<noteq> [] \<Longrightarrow> Replies w = retryReplies bad lg n @ Body bad # Body no # rest \<Longrightarrow>
     GetDevices w =
       (Inl ErrAuth,
        w\<lparr>Replies := rest,
          Sent := Sent w @ retrySent PostDevices (SessionID w) (Sid lg) n
                    @ [PostLogin],
          SessionID := (if n = 0 then SessionID w else Sid lg)\<rparr>)"
proof (induction n arbitrary: w)
  case 0
  then show ?case
    using GetDevices_login_refused [OF "0.prems"(1) _ assms(1,4), of rest]
    by (simp add: retryReplies_def)
next
  case (Suc n)
  let ?w3 = "w\<lparr>Replies := retryReplies bad lg n @ Body bad # Body no # rest,
          Sent := Sent w @ [PostDevices (SessionID w), PostLogin],
          SessionID := Sid lg\<rparr>"
  have r: "Replies w = Body bad # Body lg # retryReplies bad lg n @ Body bad # Body no # rest"
    using Suc.prems(2) by (simp add: retryReplies_def)
  have "GetDevices w = GetDevices ?w3"
    using GetDevices_retry [OF Suc.prems(1) r assms(1,2,3)] .
  also have "\<dots> = (Inl ErrAuth,
        ?w3\<lparr>Replies := rest,
          Sent := Sent ?w3 @ retrySent PostDevices (SessionID ?w3) (Sid lg) n
                    @ [PostLogin],
          SessionID := (if n = 0 then SessionID ?w3 else Sid lg)\<rparr>)"
    using assms(3) by (intro Suc.IH) simp_all
  finally show ?case by simp
qed

text \<open>
  Claim C2, as amended. The claim bounds the retries by one: a second status other than
  OK would be returned as an error. The code has no such bound. After a status other than
  OK and a successful login, \<open>GetTelemetry\<close> and \<open>GetDevices\<close> call themselves, and that
  call is the same call from the new state: it logs in and retries again on the next
  such status. So \<open>n\<close> such statuses followed by an OK response give \<open>n\<close> logins,
  \<open>n + 1\<close> fetches of the same request (with the session of the time) and the OK
  response's result, for every \<open>n\<close>; with \<open>n = 1\<close> this is the recovery from one expired
  session. An error comes from the fetch only when a request or a decoding fails or
  when a login fails: here, when the login after the status is refused. The
  counterexample has two such statuses in a row and ends in success after two logins.
\<close>

theorem fetch_retries_after_each_failure:
  assumes "SessionID w \<noteq> []"
    and "Status bad \<noteq> ''OK''" and "Status lg \<noteq> ''error''" and "Sid lg \<noteq> []"
    and "Status ok = ''OK''" and "Status no = ''error''"
  shows
    "(Replies w = Body bad # Body lg # rest \<longrightarrow>
        GetTelemetry d ks f t w =
          GetTelemetry d ks f t
            (w\<lparr>Replies := rest,
               Sent := Sent w @ [PostTelemetry (SessionID w) [d] ks f t, PostLogin],
               SessionID := Sid lg\<rparr>)
      \<and> GetDevices w =
          GetDevices
            (w\<lparr>Replies := rest, Sent := Sent w @ [PostDevices (SessionID w), PostLogin],
               SessionID := Sid lg\<rparr>))
   \<and> (Replies w = retryReplies bad lg n @ Body ok # rest \<longrightarrow>
        GetTelemetry d ks f t w =
          (Inr (toResult (Data ok) []),
           w\<lparr>Replies := rest,
             Sent := Sent w @
               retrySent (\<lambda>sid. PostTelemetry sid [d] ks f t) (SessionID w) (Sid lg) n,
             SessionID := (if n = 0 then SessionID w else Sid lg)\<rparr>)
      \<and> GetDevices w =
          (Inr (Devices ok),
           w\<lparr>Replies := rest,
             Sent := Sent w @ retrySent PostDevices (SessionID w) (Sid lg) n,
             SessionID := (if n = 0 then SessionID w else Sid lg)\<rparr>))
   \<and> (Replies w = retryReplies bad lg n @ Body bad # Body no # rest \<longrightarrow>
        GetTelemetry d ks f t w =
          (Inl ErrAuth,
           w\<lparr>Replies := rest,
             Sent := Sent w @
               retrySent (\<lambda>sid. PostTelemetry sid [d] ks f t) (SessionID w) (Sid lg) n
               @ [PostLogin],
             SessionID := (if n = 0 then SessionID w else Sid lg)\<rparr>)
      \<and> GetDevices w =
          (Inl ErrAuth,
           w\<lparr>Replies := rest,
             Sent := Sent w @ retrySent PostDevices (SessionID w) (Sid lg) n @ [PostLogin],
             SessionID := (if n = 0 then SessionID w else Sid lg)\<rparr>))
   \<and> countLogins (retrySent (\<lambda>sid. PostTelemetry sid [d] ks f t) (SessionID w) (Sid lg) n) = n
   \<and> countLogins (retrySent PostDevices (SessionID w) (Sid lg) n) = n"
proof (intro conjI impI)
  assume r: "Replies w = Body bad # Body lg # rest"
  show "GetTelemetry d ks f t w =
          GetTelemetry d ks f t
            (w\<lparr>Replies := rest,
               Sent := Sent w @ [PostTelemetry (SessionID w) [d] ks f t, PostLogin],
               SessionID := Sid lg\<rparr>)"
    using GetTelemetry_retry [OF assms(1) r assms(2,3,4)] .
  show "GetDevices w =
          GetDevices
            (w\<lparr>Replies := rest, Sent := Sent w @ [PostDevices (SessionID w), PostLogin],
               SessionID := Sid lg\<rparr>)"
    using GetDevices_retry [OF assms(1) r assms(2,3,4)] .
next
  assume r: "Replies w = retryReplies bad lg n @ Body ok # rest"
  show "GetTelemetry d ks f t w =
          (Inr (toResult (Data ok) []),
           w\<lparr>Replies := rest,
             Sent := Sent w @
               retrySent (\<lambda>sid. PostTelemetry sid [d] ks f t) (SessionID w) (Sid lg) n,
             SessionID := (if n = 0 then SessionID w else Sid lg)\<rparr>)"
    using GetTelemetry_retries [OF assms(2,3,4,5) assms(1) r] .
  show "GetDevices w =
          (Inr (Devices ok),
           w\<lparr>Replies := rest,
             Sent := Sent w @ retrySent PostDevices (SessionID w) (Sid lg) n,
             SessionID := (if n = 0 then SessionID w else Sid lg)\<rparr>)"
    using GetDevices_retries [OF assms(2,3,4,5) assms(1) r] .
next
  assume r: "Replies w = retryReplies bad lg n @ Body bad # Body no # rest"
  show "GetTelemetry d ks f t w =
          (Inl ErrAuth,
           w\<lparr>Replies := rest,
             Sent := Sent w @
               retrySent (\<lambda>sid. PostTelemetry sid [d] ks f t) (SessionID w) (Sid lg) n
               @ [PostLogin],
             SessionID := (if n = 0 then SessionID w else Sid lg)\<rparr>)"
    using GetTelemetry_retries_refused [OF assms(2,3,4,6) assms(1) r] .
  show "GetDevices w =
          (Inl ErrAuth,
           w\<lparr>Replies := rest,
             Sent := Sent w @ retrySent PostDevices (SessionID w) (Sid lg) n @ [PostLogin],
             SessionID := (if n = 0 then SessionID w else Sid lg)\<rparr>)"
    using GetDevices_retries_refused [OF assms(2,3,4,6) assms(1) r] .
next
  show "countLogins (retrySent (\<lambda>sid. PostTelemetry sid [d] ks f t) (SessionID w) (Sid lg) n) = n"
    by (rule countLogins_retrySent) simp
  show "countLogins (retrySent PostDevices (SessionID w) (Sid lg) n) = n"
    by (rule countLogins_retrySent) simp
qed

theorem second_failure_is_retried_counterexample:
  "GetTelemetry ''S1'' [''airtemp''] 1699999100000 1700000000000
     \<lparr>SessionID = ''s0'',
      Replies = [Body expiredResp, Body (loginResp ''s1''), Body expiredResp,
                 Body (loginResp ''s2''), Body airtempResp],
      Sent = []\<rparr>
   = (Inr [(''airtemp'', [\<lparr>Ts = 1700000000000, Value = AnyFloat64 21.5\<rparr>])],
      \<lparr>SessionID = ''s2'', Replies = [],
       Sent = [PostTelemetry ''s0'' [''S1''] [''airtemp''] 1699999100000 1700000000000,
               PostLogin,
               PostTelemetry ''s1'' [''S1''] [''airtemp''] 1699999100000 1700000000000,
               PostLogin,
               PostTelemetry ''s2'' [''S1''] [''airtemp''] 1699999100000 1700000000000]\<rparr>)"
  by (simp add: GetTelemetry.simps ensureSession_def Post_def Login_def toPoint_def
      expiredResp_def loginResp_def airtempResp_def)

theorem fetch_retries_after_each_failure_witness:
  "GetTelemetry ''S1'' [''airtemp''] 1699999100000 1700000000000
     \<lparr>SessionID = ''s0'',
      Replies = [Body expiredResp, Body (loginResp ''s1''), Body airtempResp],
      Sent = []\<rparr>
   = (Inr [(''airtemp'', [\<lparr>Ts = 1700000000000, Value = AnyFloat64 21.5\<rparr>])],
      \<lparr>SessionID = ''s1'', Replies = [],
       Sent = [PostTelemetry ''s0'' [''S1''] [''airtemp''] 1699999100000 1700000000000,
               PostLogin,
               PostTelemetry ''s1'' [''S1''] [''airtemp''] 1699999100000 1700000000000]\<rparr>)"
proof -
  let ?w = "\<lparr>SessionID = ''s0'',
      Replies = [Body expiredResp, Body (loginResp ''s1''), Body airtempResp],
      Sent = []\<rparr>"
  have a: "SessionID ?w \<noteq> []" "Status expiredResp \<noteq> ''OK''"
    "Status (loginResp ''s1'') \<noteq> ''error''" "Sid (loginResp ''s1'') \<noteq> []"
    "Status airtempResp = ''OK''" "Status expiredResp = ''error''"
    by (simp_all add: expiredResp_def loginResp_def airtempResp_def)
  have r: "Replies ?w = retryReplies expiredResp (loginResp ''s1'') (Suc 0) @ Body airtempResp # []"
    by (simp add: retryReplies_def)
  show ?thesis
    using fetch_retries_after_each_failure [OF a, of "[]" "''S1''" "[''airtemp'']"
        1699999100000 1700000000000 "Suc 0"] r
    by (simp add: toPoint_def airtempResp_def loginResp_def)
qed

section \<open>StoreTelemetry as a list of upserts\<close>

lemma runUpserts_append:
  "runUpserts dev (xs @ ys) db =
     (case runUpserts dev xs db of Inl err \<Rightarrow> Inl err | Inr db' \<Rightarrow> runUpserts dev ys db')"
  by (induction xs arbitrary: db) (auto split: sum.splits)

lemma storePoints_runUpserts:
  "storePoints dev k ps db = runUpserts dev (pointUpserts k ps) db"
  by (induction ps arbitrary: db) (auto split: option.splits sum.splits)

lemma storeSensors_runUpserts:
  "storeSensors dev data db = runUpserts dev (batchUpserts data) db"
  by (induction data arbitrary: db)
     (auto simp: storePoints_runUpserts runUpserts_append split: sum.splits)

lemma rowMatches_setValue [simp]:
  "rowMatches dev k ts (setValue dev' k' ts' v row) = rowMatches dev k ts row"
  by (simp add: setValue_def rowMatches_def)

lemma execUpsert_present:
  "present dev k ts db \<Longrightarrow>
     execUpsert dev k ts dv v db = Inr (db\<lparr>Telemetry := map (setValue dev k ts v) (Telemetry db)\<rparr>)"
  by (simp add: execUpsert_def present_def setValue_def)

lemma present_map_setValue [simp]:
  "present dev k ts (db\<lparr>Telemetry := map (setValue dev' k' ts' v) (Telemetry db)\<rparr>) = present dev k ts db"
  by (simp add: present_def list_ex_iff)

lemma settle_Cons:
  "settle dev ((k, ts, v) # rest) row = settle dev rest (setValue dev k ts v row)"
  by (auto simp: settle_def setValue_def rowMatches_def split: option.splits)

lemma runUpserts_present:
  "(\<forall>(k, ts, v)\<in>set ups. present dev k ts db) \<Longrightarrow>
     runUpserts dev ups db = Inr (db\<lparr>Telemetry := map (settle dev ups) (Telemetry db)\<rparr>)"
proof (induction ups arbitrary: db)
  case Nil
  have "map (settle dev []) (Telemetry db) = Telemetry db"
    by (rule map_idI) (simp add: settle_def)
  then show ?case by simp
next
  case (Cons u ups)
  obtain k ts v where u: "u = (k, ts, v)" by (cases u)
  let ?db = "db\<lparr>Telemetry := map (setValue dev k ts v) (Telemetry db)\<rparr>"
  have p: "present dev k ts db" using Cons.prems u by simp
  have "\<forall>(k, ts, v)\<in>set ups. present dev k ts ?db" using Cons.prems by auto
  from Cons.IH [OF this] show ?case
    using u by (simp add: execUpsert_present [OF p] settle_Cons comp_def)
qed

lemma settle_Nil [simp]: "settle dev [] row = row"
  by (simp add: settle_def)

lemma lastValue_append:
  "lastValue (xs @ ys) k ts =
     (case lastValue ys k ts of Some v \<Rightarrow> Some v | None \<Rightarrow> lastValue xs k ts)"
  by (induction xs) (auto split: option.splits)

lemma runUpserts_snoc:
  "runUpserts dev (ups @ [(k, ts, v)]) db = Inr db1 \<Longrightarrow>
     \<exists>db0. runUpserts dev ups db = Inr db0 \<and> execUpsert dev k ts (quot ts 1000) v db0 = Inr db1"
  by (auto simp: runUpserts_append split: sum.splits)

lemma execUpsert_cases:
  "execUpsert dev k ts dv v db0 =
     (if present dev k ts db0 then
        Inr (db0\<lparr>Telemetry := map (setValue dev k ts v) (Telemetry db0)\<rparr>)
      else if dev \<in> set (map ID (Stations db0)) then
        Inr (db0\<lparr>Telemetry := Telemetry db0 @
               [\<lparr>StationID = dev, SensorKey = k, Timestamp = ts,
                 DateValue = dv, RowValue = v\<rparr>]\<rparr>)
      else Inl ErrInsert)"
  by (simp add: execUpsert_def present_def setValue_def)

lemma execUpsert_rows:
  assumes "execUpsert dev k ts dv v db0 = Inr db1" "row \<in> set (Telemetry db1)"
  shows "(rowMatches dev k ts row \<and> RowValue row = v)
       \<or> (\<not> rowMatches dev k ts row \<and> row \<in> set (Telemetry db0))"
proof (cases "present dev k ts db0")
  case True
  then have "db1 = db0\<lparr>Telemetry := map (setValue dev k ts v) (Telemetry db0)\<rparr>"
    using assms(1) by (simp add: execUpsert_cases)
  then obtain r0 where r0: "r0 \<in> set (Telemetry db0)" "row = setValue dev k ts v r0"
    using assms(2) by auto
  show ?thesis
  proof (cases "rowMatches dev k ts r0")
    case True
    then show ?thesis using r0 by (simp add: setValue_def rowMatches_def)
  next
    case False
    then show ?thesis using r0 by (simp add: setValue_def)
  qed
next
  case False
  then have "db1 = db0\<lparr>Telemetry := Telemetry db0 @
               [\<lparr>StationID = dev, SensorKey = k, Timestamp = ts,
                 DateValue = dv, RowValue = v\<rparr>]\<rparr>"
    using assms(1) by (simp add: execUpsert_cases split: if_splits)
  then consider "row \<in> set (Telemetry db0)"
    | "row = \<lparr>StationID = dev, SensorKey = k, Timestamp = ts, DateValue = dv, RowValue = v\<rparr>"
    using assms(2) by auto
  then show ?thesis
  proof cases
    case 1
    then show ?thesis using False by (auto simp: present_def list_ex_iff)
  next
    case 2
    then show ?thesis by (simp add: rowMatches_def)
  qed
qed

lemma execUpsert_present_after:
  assumes "execUpsert dev k ts dv v db0 = Inr db1"
  shows "present dev k ts db1"
    and "present dev k' ts' db0 \<Longrightarrow> present dev k' ts' db1"
proof -
  show "present dev k ts db1"
  proof (cases "present dev k ts db0")
    case True
    then show ?thesis using assms by (auto simp: execUpsert_cases)
  next
    case False
    then show ?thesis using assms
      by (auto simp: execUpsert_cases present_def rowMatches_def split: if_splits)
  qed
  show "present dev k' ts' db0 \<Longrightarrow> present dev k' ts' db1"
  proof (cases "present dev k ts db0")
    case True
    then show "present dev k' ts' db0 \<Longrightarrow> present dev k' ts' db1"
      using assms by (auto simp: execUpsert_cases)
  next
    case False
    then show "present dev k' ts' db0 \<Longrightarrow> present dev k' ts' db1"
      using assms by (auto simp: execUpsert_cases present_def split: if_splits)
  qed
qed

lemma runUpserts_settled:
  "runUpserts dev ups db = Inr db1 \<Longrightarrow>
     (\<forall>(k, ts, v)\<in>set ups. present dev k ts db1)
     \<and> (\<forall>row\<in>set (Telemetry db1). settle dev ups row = row)"
proof (induction ups arbitrary: db1 rule: rev_induct)
  case Nil
  then show ?case by simp
next
  case (snoc u ups)
  obtain k ts v where u: "u = (k, ts, v)" by (cases u)
  from snoc.prems u obtain db0 where r: "runUpserts dev ups db = Inr db0"
    and e: "execUpsert dev k ts (quot ts 1000) v db0 = Inr db1"
    using runUpserts_snoc by blast
  note ih = snoc.IH [OF r]
  have p: "\<forall>(k, ts, v)\<in>set (ups @ [u]). present dev k ts db1"
    using ih execUpsert_present_after [OF e] u by auto
  have s: "settle dev (ups @ [u]) row = row" if "row \<in> set (Telemetry db1)" for row
  proof -
    from execUpsert_rows [OF e that]
    consider "rowMatches dev k ts row" "RowValue row = v"
      | "\<not> rowMatches dev k ts row" "row \<in> set (Telemetry db0)"
      by blast
    then show ?thesis
    proof cases
      case 1
      then show ?thesis
        by (simp add: settle_def lastValue_append u rowMatches_def)
    next
      case 2
      then have "settle dev ups row = row" using ih by blast
      then show ?thesis using 2(1)
        by (auto simp: settle_def lastValue_append u rowMatches_def split: option.splits)
    qed
  qed
  show ?case using p s by blast
qed

lemma runUpserts_again:
  assumes "(\<forall>(k, ts, v)\<in>set ups'. present dev k ts db1)"
    and "\<forall>row\<in>set (Telemetry db1). settle dev ups' row = row"
  shows "runUpserts dev ups' db1 = Inr db1"
proof -
  have "map (settle dev ups') (Telemetry db1) = Telemetry db1"
    using assms(2) by (intro map_idI) simp
  then show ?thesis using runUpserts_present [OF assms(1)] by simp
qed

lemma runUpserts_idempotent:
  "runUpserts dev ups db = Inr db1 \<Longrightarrow> runUpserts dev ups db1 = Inr db1"
  using runUpserts_settled [of dev ups db db1] runUpserts_again [of ups dev db1] by blast

lemma rowKey_setValue [simp]: "rowKey (setValue dev k ts v row) = rowKey row"
  by (simp add: rowKey_def setValue_def)

lemma execUpsert_distinct:
  assumes "execUpsert dev k ts dv v db0 = Inr db1" "distinct (map rowKey (Telemetry db0))"
  shows "distinct (map rowKey (Telemetry db1))"
proof (cases "present dev k ts db0")
  case True
  then have "db1 = db0\<lparr>Telemetry := map (setValue dev k ts v) (Telemetry db0)\<rparr>"
    using assms(1) by (simp add: execUpsert_cases)
  then show ?thesis using assms(2) by (simp add: comp_def)
next
  case False
  then have d: "db1 = db0\<lparr>Telemetry := Telemetry db0 @
               [\<lparr>StationID = dev, SensorKey = k, Timestamp = ts,
                 DateValue = dv, RowValue = v\<rparr>]\<rparr>"
    using assms(1) by (simp add: execUpsert_cases split: if_splits)
  have "(dev, k, ts) \<notin> rowKey ` set (Telemetry db0)"
    using False by (auto simp: present_def list_ex_iff rowMatches_def rowKey_def)
  then show ?thesis using assms(2) d by (simp add: rowKey_def)
qed

lemma runUpserts_distinct:
  "runUpserts dev ups db = Inr db1 \<Longrightarrow> distinct (map rowKey (Telemetry db)) \<Longrightarrow>
     distinct (map rowKey (Telemetry db1))"
proof (induction ups arbitrary: db)
  case Nil
  then show ?case by simp
next
  case (Cons u ups)
  obtain k ts v where u: "u = (k, ts, v)" by (cases u)
  from Cons.prems(1) u obtain db0 where e: "execUpsert dev k ts (quot ts 1000) v db = Inr db0"
    and r: "runUpserts dev ups db0 = Inr db1"
    by (auto split: sum.splits)
  show ?case using Cons.IH [OF r execUpsert_distinct [OF e Cons.prems(2)]] .
qed

lemma lastValue_pointUpserts_other:
  "k' \<noteq> k \<Longrightarrow> lastValue (pointUpserts k' ps) k ts = None"
  by (induction ps) (auto split: option.splits)

lemma lastValue_batchUpserts:
  "distinct (map fst data) \<Longrightarrow>
     lastValue (batchUpserts data) k ts =
       (case map_of data k of None \<Rightarrow> None | Some ps \<Rightarrow> lastValue (pointUpserts k ps) k ts)"
proof (induction data)
  case Nil
  then show ?case by simp
next
  case (Cons e data)
  obtain k0 ps0 where e: "e = (k0, ps0)" by (cases e)
  have ih: "lastValue (batchUpserts data) k ts =
       (case map_of data k of None \<Rightarrow> None | Some ps \<Rightarrow> lastValue (pointUpserts k ps) k ts)"
    using Cons by simp
  show ?case
  proof (cases "k0 = k")
    case True
    then have "map_of data k = None" using Cons.prems e by (simp add: map_of_eq_None_iff)
    then show ?thesis using ih True e by (simp add: lastValue_append)
  next
    case False
    then show ?thesis using ih e
      by (simp add: lastValue_append lastValue_pointUpserts_other split: option.splits)
  qed
qed

lemma set_batchUpserts:
  "set (batchUpserts data) = (\<Union>(k, ps)\<in>set data. set (pointUpserts k ps))"
  by (induction data) auto

lemma reordered_batch:
  assumes "distinct (map fst data)" "distinct (map fst data')" "set data' = set data"
  shows "set (batchUpserts data') = set (batchUpserts data)"
    and "lastValue (batchUpserts data') k ts = lastValue (batchUpserts data) k ts"
proof -
  show "set (batchUpserts data') = set (batchUpserts data)"
    using assms(3) by (simp add: set_batchUpserts)
  have "map_of data' = map_of data"
    using assms by (simp add: map_of_inject_set)
  then show "lastValue (batchUpserts data') k ts = lastValue (batchUpserts data) k ts"
    using assms(1,2) by (simp add: lastValue_batchUpserts)
qed

lemma runUpserts_reordered:
  assumes "runUpserts dev (batchUpserts data) db = Inr db1"
    and "distinct (map fst data)" "distinct (map fst data')" "set data' = set data"
  shows "runUpserts dev (batchUpserts data') db1 = Inr db1"
proof -
  note s = runUpserts_settled [OF assms(1)]
  have "settle dev (batchUpserts data') row = settle dev (batchUpserts data) row" for row
    using reordered_batch(2) [OF assms(2,3,4)] by (simp add: settle_def)
  moreover have "set (batchUpserts data') = set (batchUpserts data)"
    using reordered_batch(1) [OF assms(2,3,4)] .
  ultimately show ?thesis using s by (intro runUpserts_again) auto
qed

lemma example_store:
  "StoreTelemetry ''S1'' exampleData exampleDb =
     (None,
      \<lparr>Stations = [\<lparr>ID = ''S1'', Name = ''S1'', Label = ''field'', Latitude = 0, Longitude = 0\<rparr>],
       Telemetry = [\<lparr>StationID = ''S1'', SensorKey = ''soiltemp'', Timestamp = 1700000005000,
                     DateValue = 1700000005, RowValue = 7\<rparr>,
                    \<lparr>StationID = ''S1'', SensorKey = ''airtemp'', Timestamp = 1700000000000,
                     DateValue = 1700000000, RowValue = 22\<rparr>]\<rparr>)"
  by (simp add: StoreTelemetry_def exampleData_def exampleDb_def execUpsert_def rowMatches_def
      quot_def)

text \<open>
  Claim C6. \<open>StoreTelemetry\<close> is idempotent. When a call succeeds, the same call on the
  database it leaves succeeds again and leaves that database as it is, also when Go
  visits the sensors of the batch in another order (\<open>data'\<close> has the entries of \<open>data\<close>,
  each key once). When a call fails, the transaction is rolled back and the database is
  the one before the call. No duplicate is created: when no two rows share a key
  (StationID, SensorKey, Timestamp) before a call, none do after it.
\<close>

theorem StoreTelemetry_idempotent:
  "(fst (StoreTelemetry dev data db) = None \<longrightarrow>
       StoreTelemetry dev data (snd (StoreTelemetry dev data db))
         = (None, snd (StoreTelemetry dev data db))
     \<and> (\<forall>data'. distinct (map fst data) \<and> distinct (map fst data') \<and> set data' = set data \<longrightarrow>
           StoreTelemetry dev data' (snd (StoreTelemetry dev data db))
             = (None, snd (StoreTelemetry dev data db))))
   \<and> (fst (StoreTelemetry dev data db) \<noteq> None \<longrightarrow> snd (StoreTelemetry dev data db) = db)
   \<and> (distinct (map rowKey (Telemetry db)) \<longrightarrow>
        distinct (map rowKey (Telemetry (snd (StoreTelemetry dev data db)))))"
proof (cases "runUpserts dev (batchUpserts data) db")
  case (Inl err)
  then show ?thesis by (simp add: StoreTelemetry_def storeSensors_runUpserts)
next
  case (Inr db1)
  have s: "StoreTelemetry dev data db = (None, db1)"
    using Inr by (simp add: StoreTelemetry_def storeSensors_runUpserts)
  have "StoreTelemetry dev data db1 = (None, db1)"
    using runUpserts_idempotent [OF Inr] by (simp add: StoreTelemetry_def storeSensors_runUpserts)
  moreover have "StoreTelemetry dev data' db1 = (None, db1)"
    if "distinct (map fst data)" "distinct (map fst data')" "set data' = set data" for data'
    using runUpserts_reordered [OF Inr that]
    by (simp add: StoreTelemetry_def storeSensors_runUpserts)
  moreover have "distinct (map rowKey (Telemetry db)) \<longrightarrow> distinct (map rowKey (Telemetry db1))"
    using runUpserts_distinct [OF Inr] by blast
  ultimately show ?thesis using s by simp
qed

theorem StoreTelemetry_idempotent_witness:
  "fst (StoreTelemetry ''S1'' exampleData exampleDb) = None
   \<and> StoreTelemetry ''S1'' exampleData (snd (StoreTelemetry ''S1'' exampleData exampleDb))
      = (None,
      \<lparr>Stations = [\<lparr>ID = ''S1'', Name = ''S1'', Label = ''field'', Latitude = 0, Longitude = 0\<rparr>],
       Telemetry = [\<lparr>StationID = ''S1'', SensorKey = ''soiltemp'', Timestamp = 1700000005000,
                     DateValue = 1700000005, RowValue = 7\<rparr>,
                    \<lparr>StationID = ''S1'', SensorKey = ''airtemp'', Timestamp = 1700000000000,
                     DateValue = 1700000000, RowValue = 22\<rparr>]\<rparr>)"
  using StoreTelemetry_idempotent [of "''S1''" exampleData exampleDb]
  by (simp add: example_store)

section \<open>Points that are not numbers\<close>

lemma toFloat64_None_iff: "toFloat64 v = None \<longleftrightarrow> \<not> isNumeric v"
  by (cases v) simp_all

lemma toFloat64_Some_numeric: "toFloat64 v = Some x \<Longrightarrow> isNumeric v"
  by (cases v) simp_all

lemma pointUpserts_numeric:
  "pointUpserts k (filter (\<lambda>p. isNumeric (Value p)) ps) = pointUpserts k ps"
  by (induction ps)
     (auto simp: toFloat64_None_iff dest: toFloat64_Some_numeric split: option.splits)

lemma batchUpserts_numericOnly: "batchUpserts (numericOnly data) = batchUpserts data"
  by (induction data) (auto simp: numericOnly_def pointUpserts_numeric)

lemma pointUpserts_none:
  "(\<forall>p\<in>set ps. \<not> isNumeric (Value p)) \<Longrightarrow> pointUpserts k ps = []"
  by (induction ps) (auto simp: toFloat64_None_iff split: option.splits)

lemma batchUpserts_none:
  "(\<forall>(k, ps)\<in>set data. \<forall>p\<in>set ps. \<not> isNumeric (Value p)) \<Longrightarrow> batchUpserts data = []"
  by (induction data) (auto simp: pointUpserts_none)

lemma set_pointUpserts:
  "set (pointUpserts k ps) = {(k, Ts p, v) | p v. p \<in> set ps \<and> toFloat64 (Value p) = Some v}"
  by (induction ps) (auto split: option.splits)

lemma execUpsert_origin:
  assumes "execUpsert dev k ts dv v db0 = Inr db1" "row \<in> set (Telemetry db1)"
  shows "row \<in> set (Telemetry db0)
       \<or> (StationID row = dev \<and> SensorKey row = k \<and> Timestamp row = ts \<and> RowValue row = v)"
  using execUpsert_rows [OF assms] by (auto simp: rowMatches_def)

lemma runUpserts_origin:
  "runUpserts dev ups db = Inr db1 \<Longrightarrow> row \<in> set (Telemetry db1) \<Longrightarrow>
     row \<in> set (Telemetry db)
     \<or> (StationID row = dev \<and> (SensorKey row, Timestamp row, RowValue row) \<in> set ups)"
proof (induction ups arbitrary: db)
  case Nil
  then show ?case by simp
next
  case (Cons u ups)
  obtain k ts v where u: "u = (k, ts, v)" by (cases u)
  from Cons.prems(1) u obtain db0 where e: "execUpsert dev k ts (quot ts 1000) v db = Inr db0"
    and r: "runUpserts dev ups db0 = Inr db1"
    by (auto split: sum.splits)
  from Cons.IH [OF r Cons.prems(2)]
  consider "row \<in> set (Telemetry db0)"
    | "StationID row = dev" "(SensorKey row, Timestamp row, RowValue row) \<in> set ups"
    by blast
  then show ?case
  proof cases
    case 1
    then show ?thesis using execUpsert_origin [OF e] u by auto
  next
    case 2
    then show ?thesis by simp
  qed
qed

lemma processAndSaveTelemetry_counts_received:
  "fst (StoreTelemetry dev data db) = None \<Longrightarrow>
     fst (processAndSaveTelemetry dev data db) = (\<Sum>(k, ps)\<leftarrow>data. int (length ps))"
  by (auto simp: processAndSaveTelemetry_def Let_def split: prod.splits option.splits)

lemma only_numeric_points_stored:
  "StoreTelemetry dev data db = StoreTelemetry dev (numericOnly data) db
   \<and> ((\<forall>(k, ps)\<in>set data. \<forall>p\<in>set ps. \<not> isNumeric (Value p)) \<longrightarrow>
        StoreTelemetry dev data db = (None, db))
   \<and> (\<forall>row\<in>set (Telemetry (snd (StoreTelemetry dev data db))).
        row \<in> set (Telemetry db)
        \<or> (\<exists>(k, ps)\<in>set data. \<exists>p\<in>set ps. isNumeric (Value p) \<and> StationID row = dev
              \<and> SensorKey row = k \<and> Timestamp row = Ts p
              \<and> toFloat64 (Value p) = Some (RowValue row)))"
proof (intro conjI impI ballI)
  show "StoreTelemetry dev data db = StoreTelemetry dev (numericOnly data) db"
    by (simp add: StoreTelemetry_def storeSensors_runUpserts batchUpserts_numericOnly)
next
  assume "\<forall>(k, ps)\<in>set data. \<forall>p\<in>set ps. \<not> isNumeric (Value p)"
  then show "StoreTelemetry dev data db = (None, db)"
    by (simp add: StoreTelemetry_def storeSensors_runUpserts batchUpserts_none)
next
  fix row
  assume row: "row \<in> set (Telemetry (snd (StoreTelemetry dev data db)))"
  show "row \<in> set (Telemetry db)
        \<or> (\<exists>(k, ps)\<in>set data. \<exists>p\<in>set ps. isNumeric (Value p) \<and> StationID row = dev
              \<and> SensorKey row = k \<and> Timestamp row = Ts p
              \<and> toFloat64 (Value p) = Some (RowValue row))"
  proof (cases "runUpserts dev (batchUpserts data) db")
    case (Inl err)
    then show ?thesis using row by (simp add: StoreTelemetry_def storeSensors_runUpserts)
  next
    case (Inr db1)
    then have "row \<in> set (Telemetry db1)"
      using row by (simp add: StoreTelemetry_def storeSensors_runUpserts)
    from runUpserts_origin [OF Inr this]
    consider "row \<in> set (Telemetry db)"
      | "StationID row = dev" "(SensorKey row, Timestamp row, RowValue row) \<in> set (batchUpserts data)"
      by blast
    then show ?thesis
    proof cases
      case 1
      then show ?thesis by simp
    next
      case 2
      then obtain k ps where kp: "(k, ps) \<in> set data"
        "(SensorKey row, Timestamp row, RowValue row) \<in> set (pointUpserts k ps)"
        by (auto simp: set_batchUpserts)
      then obtain p where p: "p \<in> set ps" "SensorKey row = k" "Timestamp row = Ts p"
        "toFloat64 (Value p) = Some (RowValue row)"
        by (auto simp: set_pointUpserts)
      then have "isNumeric (Value p)" using toFloat64_Some_numeric by blast
      then show ?thesis using kp(1) p 2(1) by blast
    qed
  qed
qed

text \<open>
  Claim C7. A point whose value is not a \<open>float64\<close>, \<open>float32\<close>, \<open>int\<close> or \<open>int64\<close>
  is skipped by \<open>StoreTelemetry\<close>: the call does what it does on the batch without such
  points (same error or none, same database, so the same number of rows), a batch of
  only such points leaves the database as it is and returns no error, and every row
  of the database after the call was there before or carries the value of a numeric
  point of the batch.
\<close>

theorem non_numeric_points_are_skipped:
  "StoreTelemetry dev data db = StoreTelemetry dev (numericOnly data) db
   \<and> length (Telemetry (snd (StoreTelemetry dev data db)))
       = length (Telemetry (snd (StoreTelemetry dev (numericOnly data) db)))
   \<and> ((\<forall>(k, ps)\<in>set data. \<forall>p\<in>set ps. \<not> isNumeric (Value p)) \<longrightarrow>
        StoreTelemetry dev data db = (None, db))
   \<and> (\<forall>row\<in>set (Telemetry (snd (StoreTelemetry dev data db))).
        row \<in> set (Telemetry db)
        \<or> (\<exists>(k, ps)\<in>set data. \<exists>p\<in>set ps. isNumeric (Value p) \<and> StationID row = dev
              \<and> SensorKey row = k \<and> Timestamp row = Ts p
              \<and> toFloat64 (Value p) = Some (RowValue row)))"
proof -
  note h = only_numeric_points_stored [of dev data db]
  have "StoreTelemetry dev data db = StoreTelemetry dev (numericOnly data) db"
    using h by blast
  then have "length (Telemetry (snd (StoreTelemetry dev data db)))
       = length (Telemetry (snd (StoreTelemetry dev (numericOnly data) db)))"
    by (rule arg_cong)
  then show ?thesis using h by blast
qed

theorem non_numeric_points_are_skipped_witness:
  "StoreTelemetry ''S1'' naData exampleDb = (None, exampleDb)
   \<and> length (Telemetry (snd (StoreTelemetry ''S1'' naData exampleDb))) = 1
   \<and> StoreTelemetry ''S1'' exampleData exampleDb
      = StoreTelemetry ''S1''
          [(''airtemp'', [\<lparr>Ts = 1700000000000, Value = AnyFloat64 21.5\<rparr>,
                         \<lparr>Ts = 1700000000000, Value = AnyFloat64 22\<rparr>]),
           (''soiltemp'', [\<lparr>Ts = 1700000005000, Value = AnyInt 7\<rparr>])] exampleDb"
proof -
  have a: "\<forall>(k, ps)\<in>set naData. \<forall>p\<in>set ps. \<not> isNumeric (Value p)"
    by (simp add: naData_def)
  have c: "numericOnly exampleData =
          [(''airtemp'', [\<lparr>Ts = 1700000000000, Value = AnyFloat64 21.5\<rparr>,
                         \<lparr>Ts = 1700000000000, Value = AnyFloat64 22\<rparr>]),
           (''soiltemp'', [\<lparr>Ts = 1700000005000, Value = AnyInt 7\<rparr>])]"
    by (simp add: numericOnly_def exampleData_def)
  note n = non_numeric_points_are_skipped [of "''S1''" naData exampleDb]
  note e = non_numeric_points_are_skipped [of "''S1''" exampleData exampleDb]
  have 1: "StoreTelemetry ''S1'' naData exampleDb = (None, exampleDb)"
    using n a by blast
  then have 2: "length (Telemetry (snd (StoreTelemetry ''S1'' naData exampleDb))) = 1"
    by (simp add: exampleDb_def)
  have "StoreTelemetry ''S1'' exampleData exampleDb
      = StoreTelemetry ''S1'' (numericOnly exampleData) exampleDb"
    using e by blast
  then have 3: "StoreTelemetry ''S1'' exampleData exampleDb
      = StoreTelemetry ''S1''
          [(''airtemp'', [\<lparr>Ts = 1700000000000, Value = AnyFloat64 21.5\<rparr>,
                         \<lparr>Ts = 1700000000000, Value = AnyFloat64 22\<rparr>]),
           (''soiltemp'', [\<lparr>Ts = 1700000005000, Value = AnyInt 7\<rparr>])] exampleDb"
    by (simp only: c)
  show ?thesis using 1 2 3 by blast
qed

text \<open>
  \<open>StoreTelemetry\<close> returns no count. The count \<open>processAndSaveTelemetry\<close> returns after
  a successful store is the number of points received, the skipped ones included: for
  a batch of one point \<open>"N/A"\<close> nothing is stored and the count is 1.
\<close>

lemma received_count_example:
  "processAndSaveTelemetry ''S1'' naData exampleDb = (1, exampleDb)
   \<and> StoreTelemetry ''S1'' naData exampleDb = (None, exampleDb)"
  by (simp add: processAndSaveTelemetry_def StoreTelemetry_def naData_def)

section \<open>Readings of exactly zero\<close>

lemma pointUpserts_append:
  "pointUpserts k (ps @ qs) = pointUpserts k ps @ pointUpserts k qs"
  by (induction ps) (auto split: option.splits)

lemma appendPoint_keeps:
  "(k, ps) \<in> set tel \<Longrightarrow> p \<in> set ps \<Longrightarrow>
     \<exists>ps'. (k, ps') \<in> set (appendPoint tel key q) \<and> p \<in> set ps'"
  by (induction tel key q rule: appendPoint.induct) (auto split: if_splits)

lemma appendPoint_adds: "\<exists>ps. (key, ps) \<in> set (appendPoint tel key q) \<and> q \<in> set ps"
  by (induction tel key q rule: appendPoint.induct) auto

lemma appendPoint_points:
  "(\<Union>(k, ps)\<in>set (appendPoint tel key q). set ps) = insert q (\<Union>(k, ps)\<in>set tel. set ps)"
  by (induction tel key q rule: appendPoint.induct) auto

lemma toResult_keeps:
  "(k, ps) \<in> set acc \<Longrightarrow> p \<in> set ps \<Longrightarrow>
     \<exists>ps'. (k, ps') \<in> set (toResult ds acc) \<and> p \<in> set ps'"
proof (induction ds arbitrary: acc ps)
  case Nil
  then show ?case by auto
next
  case (Cons d ds)
  from appendPoint_keeps [OF Cons.prems, of "Key d" "toPoint d"]
  obtain ps' where "(k, ps') \<in> set (appendPoint acc (Key d) (toPoint d))" "p \<in> set ps'"
    by blast
  from Cons.IH [OF this] show ?case by simp
qed

lemma toResult_has:
  "d \<in> set ds \<Longrightarrow> \<exists>ps. (Key d, ps) \<in> set (toResult ds acc) \<and> toPoint d \<in> set ps"
proof (induction ds arbitrary: acc)
  case Nil
  then show ?case by simp
next
  case (Cons e ds)
  show ?case
  proof (cases "d = e")
    case True
    obtain ps where "(Key d, ps) \<in> set (appendPoint acc (Key d) (toPoint d))" "toPoint d \<in> set ps"
      using appendPoint_adds by blast
    from toResult_keeps [OF this] show ?thesis using True by simp
  next
    case False
    then show ?thesis using Cons by simp
  qed
qed

lemma toResult_points:
  "(\<Union>(k, ps)\<in>set (toResult ds acc). set ps) = (\<Union>(k, ps)\<in>set acc. set ps) \<union> toPoint ` set ds"
  by (induction ds arbitrary: acc) (auto simp: appendPoint_points)

text \<open>
  Claim C10. \<open>GetTelemetry\<close> takes \<open>dbl_v\<close> as the value of a point only when it is
  not 0; for a record with \<open>dbl_v = 0\<close> the value is \<open>str_v\<close>. When \<open>str_v\<close> is nil too,
  the point has the value nil, the type switch of \<open>StoreTelemetry\<close> does not accept it,
  and the point is skipped wherever it stands among the points of its sensor. A
  telemetry response whose readings are all of this kind is fetched, with one nil point
  per reading, and storing it leaves the database as it is.
\<close>

theorem zero_readings_are_dropped:
  "(DblV d = 0 \<longrightarrow> Value (toPoint d) = StrV d)
   \<and> (DblV d = 0 \<and> StrV d = AnyNil \<longrightarrow>
        toPoint d = \<lparr>Ts = DataTs d, Value = AnyNil\<rparr>
      \<and> toFloat64 (Value (toPoint d)) = None
      \<and> storePoints dev k (ps @ toPoint d # qs) db = storePoints dev k (ps @ qs) db)
   \<and> (SessionID w \<noteq> [] \<and> Replies w = Body ok # rest \<and> Status ok = ''OK''
        \<and> (\<forall>d\<in>set (Data ok). DblV d = 0 \<and> StrV d = AnyNil) \<longrightarrow>
        (\<exists>tel w'. GetTelemetry dev ks f t w = (Inr tel, w')
           \<and> (\<forall>d\<in>set (Data ok).
                 \<exists>points. (Key d, points) \<in> set tel
                   \<and> \<lparr>Ts = DataTs d, Value = AnyNil\<rparr> \<in> set points)
           \<and> StoreTelemetry dev tel db = (None, db)))"
proof (intro conjI impI)
  show "DblV d = 0 \<Longrightarrow> Value (toPoint d) = StrV d"
    by (simp add: toPoint_def)
next
  assume z: "DblV d = 0 \<and> StrV d = AnyNil"
  then show p: "toPoint d = \<lparr>Ts = DataTs d, Value = AnyNil\<rparr>"
    by (simp add: toPoint_def)
  then show "toFloat64 (Value (toPoint d)) = None" by simp
  then show "storePoints dev k (ps @ toPoint d # qs) db = storePoints dev k (ps @ qs) db"
    by (simp add: storePoints_runUpserts pointUpserts_append)
next
  assume a: "SessionID w \<noteq> [] \<and> Replies w = Body ok # rest \<and> Status ok = ''OK''
        \<and> (\<forall>d\<in>set (Data ok). DblV d = 0 \<and> StrV d = AnyNil)"
  let ?tel = "toResult (Data ok) []"
  have g: "GetTelemetry dev ks f t w =
     (Inr ?tel, w\<lparr>Replies := rest, Sent := Sent w @ [PostTelemetry (SessionID w) [dev] ks f t]\<rparr>)"
    using a by (intro GetTelemetry_ok) simp_all
  have nil: "toPoint d = \<lparr>Ts = DataTs d, Value = AnyNil\<rparr>" if "d \<in> set (Data ok)" for d
    using a that by (simp add: toPoint_def)
  have h: "\<forall>d\<in>set (Data ok). \<exists>points. (Key d, points) \<in> set ?tel
            \<and> \<lparr>Ts = DataTs d, Value = AnyNil\<rparr> \<in> set points"
    using toResult_has [of _ "Data ok" "[]"] nil by metis
  have "(\<Union>(k, ps)\<in>set ?tel. set ps) = toPoint ` set (Data ok)"
    by (simp add: toResult_points)
  then have "\<forall>(k, ps)\<in>set ?tel. \<forall>p\<in>set ps. p \<in> toPoint ` set (Data ok)"
    by blast
  then have "\<forall>(k, ps)\<in>set ?tel. \<forall>p\<in>set ps. \<not> isNumeric (Value p)"
    using nil by fastforce
  then have "StoreTelemetry dev ?tel db = (None, db)"
    by (simp add: StoreTelemetry_def storeSensors_runUpserts batchUpserts_none)
  then show "\<exists>tel w'. GetTelemetry dev ks f t w = (Inr tel, w')
           \<and> (\<forall>d\<in>set (Data ok).
                 \<exists>points. (Key d, points) \<in> set tel
                   \<and> \<lparr>Ts = DataTs d, Value = AnyNil\<rparr> \<in> set points)
           \<and> StoreTelemetry dev tel db = (None, db)"
    using g h by blast
qed

theorem zero_readings_are_dropped_witness:
  "GetTelemetry ''S1'' [''rainfall''] 1699999100000 1700000000000
     \<lparr>SessionID = ''s0'', Replies = [Body zeroResp], Sent = []\<rparr>
   = (Inr [(''rainfall'', [\<lparr>Ts = 1700000000000, Value = AnyNil\<rparr>])],
      \<lparr>SessionID = ''s0'', Replies = [],
       Sent = [PostTelemetry ''s0'' [''S1''] [''rainfall''] 1699999100000 1700000000000]\<rparr>)
   \<and> StoreTelemetry ''S1'' [(''rainfall'', [\<lparr>Ts = 1700000000000, Value = AnyNil\<rparr>])] exampleDb
       = (None, exampleDb)"
proof -
  let ?w = "\<lparr>SessionID = ''s0'', Replies = [Body zeroResp], Sent = []\<rparr>"
  have g: "GetTelemetry ''S1'' [''rainfall''] 1699999100000 1700000000000 ?w
     = (Inr [(''rainfall'', [\<lparr>Ts = 1700000000000, Value = AnyNil\<rparr>])],
      \<lparr>SessionID = ''s0'', Replies = [],
       Sent = [PostTelemetry ''s0'' [''S1''] [''rainfall''] 1699999100000 1700000000000]\<rparr>)"
    by (simp add: GetTelemetry.simps ensureSession_def Post_def toPoint_def zeroResp_def)
  have h: "SessionID ?w \<noteq> [] \<and> Replies ?w = Body zeroResp # [] \<and> Status zeroResp = ''OK''
        \<and> (\<forall>d\<in>set (Data zeroResp). DblV d = 0 \<and> StrV d = AnyNil)"
    by (simp add: zeroResp_def)
  show ?thesis
    using zero_readings_are_dropped
      [where dev = "''S1''" and w = ?w and ok = zeroResp and rest = "[]"
         and ks = "[''rainfall'']" and f = 1699999100000 and t = 1700000000000
         and db = exampleDb] h g
    by auto
qed

section \<open>The backfill of the new sensors\<close>

text \<open>
  Claim C1 does not hold for the code. \<open>splitTimePeriodByMonth\<close> adds the first partial
  period, from \<open>tsFrom\<close> to the end of the month, only when \<open>fromTime.Day() > 1\<close>. When
  \<open>tsFrom\<close> falls on the first day of a month but not on its first instant, the first
  period is the whole month: it starts at 00:00 of that day, before \<open>tsFrom\<close>, and the
  periods cover more than \<open>[now - 365d, now)\<close>. Here \<open>now\<close> is 2023-06-01T12:00:00Z
  (1685620800000): \<open>now - 365d\<close> is 2022-06-01T12:00:00Z (1654084800000), and the first
  period starts at 2022-06-01T00:00:00Z (1654041600000) in UTC; in the zone of the
  Dockerfile (UTC+3) it starts at 1654030800000. The second part is a station whose
  sensors, but for one, have no stored reading: these are the periods \<open>processDevice\<close>
  requests for them.
\<close>

theorem backfill_starts_before_the_year:
  "splitTimePeriodByMonth 0 (1685620800000 - 365 * 24 * 60 * 60 * 1000) 1685620800000 =
     Some [\<lparr>period_from = 1654041600000, period_to = 1656633600000\<rparr>,
           \<lparr>period_from = 1656633600000, period_to = 1659312000000\<rparr>,
           \<lparr>period_from = 1659312000000, period_to = 1661990400000\<rparr>,
           \<lparr>period_from = 1661990400000, period_to = 1664582400000\<rparr>,
           \<lparr>period_from = 1664582400000, period_to = 1667260800000\<rparr>,
           \<lparr>period_from = 1667260800000, period_to = 1669852800000\<rparr>,
           \<lparr>period_from = 1669852800000, period_to = 1672531200000\<rparr>,
           \<lparr>period_from = 1672531200000, period_to = 1675209600000\<rparr>,
           \<lparr>period_from = 1675209600000, period_to = 1677628800000\<rparr>,
           \<lparr>period_from = 1677628800000, period_to = 1680307200000\<rparr>,
           \<lparr>period_from = 1680307200000, period_to = 1682899200000\<rparr>,
           \<lparr>period_from = 1682899200000, period_to = 1685577600000\<rparr>,
           \<lparr>period_from = 1685577600000, period_to = 1685620800000\<rparr>]
   \<and> (1654041600000 :: int) < 1685620800000 - 365 * 24 * 60 * 60 * 1000
   \<and> map_option (\<lambda>ps. period_from (hd ps))
         (splitTimePeriodByMonth 10800 (1685620800000 - 365 * 24 * 60 * 60 * 1000) 1685620800000)
       = Some 1654030800000
   \<and> map_option (\<lambda>ps. period_from (hd ps))
         (newPeriods 0 1685620800000
            (scanSensors (GetLatestTelemetryTimestamp neverFails exampleDb ''S1'') sensorKeys
               (initialScan 1685620800000)))
       = Some 1654041600000"
  by code_simp

end
